theory Spec2Isabelle
  imports Complex_Main "HOL-Library.Word" "HOL-Library.Sublist"
begin

section \<open>JavaScript strings\<close>

text \<open>
  A JavaScript string is a sequence of UTF-16 code units, and \<open>.length\<close>, \<open>.slice\<close>,
  \<open>.trim\<close> and \<open>.includes\<close> all work on code units. The model is a list of 16-bit
  words; \<open>js\<close> embeds a literal whose characters are below 256.
\<close>

type_synonym jsstring = "16 word list"

definition js :: "string \<Rightarrow> jsstring" where
  "js s = map of_char s"

text \<open>
  \<open>String.prototype.trim\<close> removes the ECMAScript WhiteSpace and LineTerminator code
  points from both ends.
\<close>

definition isWhiteSpace :: "16 word \<Rightarrow> bool" where
  "isWhiteSpace c \<longleftrightarrow>
     c = 0x0009 \<or> c = 0x000A \<or> c = 0x000B \<or> c = 0x000C \<or> c = 0x000D \<or> c = 0x0020 \<or>
     c = 0x00A0 \<or> c = 0x1680 \<or> (0x2000 \<le> c \<and> c \<le> 0x200A) \<or> c = 0x2028 \<or>
     c = 0x2029 \<or> c = 0x202F \<or> c = 0x205F \<or> c = 0x3000 \<or> c = 0xFEFF"

definition trim :: "jsstring \<Rightarrow> jsstring" where
  "trim s = rev (dropWhile isWhiteSpace (rev (dropWhile isWhiteSpace s)))"

text \<open>\<open>s.includes(p)\<close>: does \<open>p\<close> occur in \<open>s\<close> as a contiguous run.\<close>

fun includes_js :: "jsstring \<Rightarrow> jsstring \<Rightarrow> bool" where
  "includes_js [] p = (p = [])"
| "includes_js (c # cs) p = (prefix p (c # cs) \<or> includes_js cs p)"

section \<open>Responses of the model API\<close>

text \<open>
  The fields of \<open>GenerateContentResponse\<close> that the service reads. Every field the
  source reaches through \<open>?.\<close> or \<open>??\<close> is optional here.
\<close>

record usageMetadata =
  totalTokenCount :: "int option"
  promptTokenCount :: "int option"
  candidatesTokenCount :: "int option"

record webInfo =
  web_uri :: "jsstring option"
  web_title :: "jsstring option"

record groundingChunk =
  web :: "webInfo option"

record groundingMetadata =
  groundingChunks :: "groundingChunk list option"

record candidate =
  groundingMetadata :: "groundingMetadata option"

record response =
  text_of :: "jsstring option"
  usageMetadata :: "usageMetadata option"
  candidates :: "candidate list option"

section \<open>trackUsage\<close>

text \<open>
  \<open>a ?? b\<close> is \<open>a\<close> unless \<open>a\<close> is null or undefined; a present zero is kept.
\<close>

definition nullish :: "'a option \<Rightarrow> 'a option \<Rightarrow> 'a option" where
  "nullish a b = (case a of Some v \<Rightarrow> Some v | None \<Rightarrow> b)"

definition usageTotal :: "response \<Rightarrow> int" where
  "usageTotal r =
     (case nullish (Option.bind (usageMetadata r) totalTokenCount)
             (nullish (Option.bind (usageMetadata r) promptTokenCount)
                (Option.bind (usageMetadata r) candidatesTokenCount)) of
        Some n \<Rightarrow> n
      | None \<Rightarrow> 0)"

text \<open>
  The listener is a callback with an effect on the observer's state \<open>'u\<close>; a missing
  listener is \<open>None\<close>. \<open>trackUsage\<close> returns the observer's state after the call.
\<close>

definition trackUsage :: "(int \<Rightarrow> 'u \<Rightarrow> 'u) option \<Rightarrow> response \<Rightarrow> 'u \<Rightarrow> 'u" where
  "trackUsage tokenListener r u =
     (case tokenListener of
        None \<Rightarrow> u
      | Some listener \<Rightarrow>
          (let total = usageTotal r in if total > 0 then listener total u else u))"

text \<open>A listener that records every count it is called with, oldest first.\<close>

definition recording :: "int \<Rightarrow> int list \<Rightarrow> int list" where
  "recording n calls = calls @ [n]"

definition usageOnly :: "usageMetadata option \<Rightarrow> response" where
  "usageOnly m = \<lparr>text_of = None, usageMetadata = m, candidates = None\<rparr>"

section \<open>withRetry\<close>

text \<open>
  A value thrown by the backend is an error object; \<open>withRetry\<close> reads its \<open>status\<close>,
  \<open>code\<close> and \<open>message\<close>, each of which may be missing. A status or code is a number
  or a string. The message, when present, is a string.
\<close>

datatype jsval = JNum int | JStr jsstring

record jserr =
  status :: "jsval option"
  code :: "jsval option"
  message :: "jsstring option"

text \<open>\<open>err?.message?.includes(p)\<close> is undefined, hence falsy, when there is no message.\<close>

definition messageIncludes :: "jserr \<Rightarrow> string \<Rightarrow> bool" where
  "messageIncludes err p = (case message err of None \<Rightarrow> False | Some m \<Rightarrow> includes_js m (js p))"

definition isRetryable :: "jserr \<Rightarrow> bool" where
  "isRetryable err =
     (let st = nullish (status err) (code err) in
        st = Some (JNum 429) \<or>
        st = Some (JNum 503) \<or>
        messageIncludes err ''quota'' \<or>
        messageIncludes err ''RESOURCE_EXHAUSTED'' \<or>
        messageIncludes err ''rate limit'')"

text \<open>
  An asynchronous operation is a step on the state \<open>'s\<close> of everything outside the
  service (the remote backend, the observer of the token counts): it returns a value
  (\<open>Inr\<close>) or throws (\<open>Inl\<close>), and leaves a new state. What \<open>withRetry\<close> does is
  recorded as a trace: each call of the primary operation with its attempt number, each
  backoff sleep with its delay in milliseconds, and the call of the fallback operation.
  Console output is not modelled.
\<close>

type_synonym ('s, 'a) operation = "'s \<Rightarrow> (jserr + 'a) \<times> 's"

datatype event = Attempt nat | Backoff nat int | Fallback

text \<open>The loop either returns from the function or is left with \<open>lastError\<close>.\<close>

datatype 'a loop_exit = Returned 'a | Fell "jserr option"

text \<open>
  \<open>jitter attempt\<close> stands for the value of \<open>Math.random() * 400\<close> drawn at that
  attempt.
\<close>

function retryLoop ::
  "('s, 'a) operation \<Rightarrow> int \<Rightarrow> int \<Rightarrow> (nat \<Rightarrow> int) \<Rightarrow> nat \<Rightarrow> jserr option \<Rightarrow> 's
     \<Rightarrow> 'a loop_exit \<times> 's \<times> event list" where
  "retryLoop operation maxRetries baseDelayMs jitter attempt lastError s =
     (if int attempt \<le> maxRetries then
        (case operation s of
           (Inr v, s') \<Rightarrow> (Returned v, s', [Attempt attempt])
         | (Inl err, s') \<Rightarrow>
             if \<not> isRetryable err \<or> int attempt = maxRetries
             then (Fell (Some err), s', [Attempt attempt])
             else
               (let delay = baseDelayMs * 2 ^ attempt + jitter attempt in
                  case retryLoop operation maxRetries baseDelayMs jitter (Suc attempt) (Some err) s' of
                    (r, s'', tr) \<Rightarrow> (r, s'', Attempt attempt # Backoff attempt delay # tr)))
      else (Fell lastError, s, []))"
  by pat_completeness auto
termination
  by (relation "measure (\<lambda>(operation, maxRetries, baseDelayMs, jitter, attempt, lastError, s).
         nat (maxRetries + 1 - int attempt))") auto

declare retryLoop.simps [simp del]

definition allRetriesFailed :: jserr where
  "allRetriesFailed = \<lparr>status = None, code = None, message = Some (js ''All retry attempts failed'')\<rparr>"

definition withRetry ::
  "('s, 'a) operation \<Rightarrow> ('s, 'a) operation option \<Rightarrow> int \<Rightarrow> int \<Rightarrow> (nat \<Rightarrow> int) \<Rightarrow> 's
     \<Rightarrow> (jserr + 'a) \<times> 's \<times> event list" where
  "withRetry operation fallbackOperation maxRetries baseDelayMs jitter s =
     (case retryLoop operation maxRetries baseDelayMs jitter 0 None s of
        (Returned v, s', tr) \<Rightarrow> (Inr v, s', tr)
      | (Fell lastError, s', tr) \<Rightarrow>
          (let thrown = (case lastError of Some e \<Rightarrow> e | None \<Rightarrow> allRetriesFailed) in
             case fallbackOperation of
               Some fallback \<Rightarrow>
                 (case fallback s' of
                    (Inr v, s'') \<Rightarrow> (Inr v, s'', tr @ [Fallback])
                  | (Inl fallbackErr, s'') \<Rightarrow> (Inl thrown, s'', tr @ [Fallback]))
             | None \<Rightarrow> (Inl thrown, s', tr)))"

text \<open>The numbers of primary calls, backoff sleeps and fallback calls in a trace.\<close>

fun isAttempt :: "event \<Rightarrow> bool" where
  "isAttempt (Attempt a) = True"
| "isAttempt e = False"

fun isBackoff :: "event \<Rightarrow> bool" where
  "isBackoff (Backoff a d) = True"
| "isBackoff e = False"

definition primaryCalls :: "event list \<Rightarrow> nat" where
  "primaryCalls tr = length (filter isAttempt tr)"

definition sleeps :: "event list \<Rightarrow> nat" where
  "sleeps tr = length (filter isBackoff tr)"

definition fallbackCalls :: "event list \<Rightarrow> nat" where
  "fallbackCalls tr = length (filter (\<lambda>e. e = Fallback) tr)"

text \<open>
  The primary operation fails with a retryable error on each of its next \<open>n\<close> calls,
  starting from state \<open>s\<close>.
\<close>

fun failsRetryably :: "nat \<Rightarrow> ('s, 'a) operation \<Rightarrow> 's \<Rightarrow> bool" where
  "failsRetryably 0 operation s = True"
| "failsRetryably (Suc n) operation s =
     (case operation s of
        (Inl err, s') \<Rightarrow> isRetryable err \<and> failsRetryably n operation s'
      | (Inr v, s') \<Rightarrow> False)"


text \<open>The outside state after \<open>k\<close> calls of an operation, starting from \<open>s\<close>.\<close>

fun stateAfter :: "nat \<Rightarrow> ('s, 'a) operation \<Rightarrow> 's \<Rightarrow> 's" where
  "stateAfter 0 operation s = s"
| "stateAfter (Suc k) operation s = stateAfter k operation (snd (operation s))"

definition backoffTrace :: "int \<Rightarrow> (nat \<Rightarrow> int) \<Rightarrow> nat \<Rightarrow> nat \<Rightarrow> event list" where
  \<comment> \<open>attempts \<open>a\<close> up to \<open>b - 1\<close>, each followed by its backoff sleep\<close>
  "backoffTrace baseDelayMs jitter a b =
     concat (map (\<lambda>k. [Attempt k, Backoff k (baseDelayMs * 2 ^ k + jitter k)]) [a ..< b])"

text \<open>\<open>m\<close> contains the marker \<open>p\<close>: the marker occurs somewhere inside \<open>m\<close>.\<close>

definition contains :: "jsstring \<Rightarrow> string \<Rightarrow> bool" where
  "contains m p \<longleftrightarrow> (\<exists>u v. m = u @ js p @ v)"

section \<open>formatCaseFiles\<close>

text \<open>The fields of \<open>CaseFile\<close> that the service reads.\<close>

record CaseFile =
  name :: jsstring
  content :: jsstring

text \<open>A non-negative integer in a template literal is rendered in decimal.\<close>

definition digit :: "nat \<Rightarrow> 16 word" where
  "digit d = of_nat (48 + d)"

fun toString :: "nat \<Rightarrow> jsstring" where
  "toString n = (if n < 10 then [digit n] else toString (n div 10) @ [digit (n mod 10)])"

declare toString.simps [simp del]


fun join :: "jsstring \<Rightarrow> jsstring list \<Rightarrow> jsstring" where
  "join sep [] = []"
| "join sep [x] = x"
| "join sep (x # y # ys) = x @ sep @ join sep (y # ys)"

definition safeContent :: "CaseFile \<Rightarrow> jsstring" where
  "safeContent f = take 14000 (trim (content f))"

definition renderFile :: "CaseFile \<Rightarrow> jsstring" where
  "renderFile f =
     js ''--- FILE: '' @ name f @ js '' ('' @ toString (length (content f)) @ js '' chars) ---\<newline>'' @
     safeContent f @ js ''\<newline>--- END ---''"

definition formatCaseFiles :: "CaseFile list \<Rightarrow> jsstring" where
  "formatCaseFiles files =
     (if length files = 0 then []
      else js ''\<newline>\<newline><CASE_FILES>\<newline>'' @ join (js ''\<newline>\<newline>'') (map renderFile files) @
           js ''\<newline></CASE_FILES>\<newline>'')"

section \<open>The service and its backend\<close>

definition MODELS_reasoning :: jsstring where
  "MODELS_reasoning = js ''gemini-3-pro-preview''"

definition MODELS_fast :: jsstring where
  "MODELS_fast = js ''gemini-3-flash-preview''"

text \<open>The argument of \<open>ai.models.generateContent\<close>.\<close>

record genRequest =
  model :: jsstring
  contents :: jsstring
  systemInstruction :: jsstring
  temperature :: real
  topP :: "real option"
  googleSearch :: bool

datatype part = Text jsstring

record turn =
  role :: jsstring
  parts :: "part list"

text \<open>\<open>ai.chats.create(...)\<close> followed by \<open>chat.sendMessage(...)\<close>, as one request.\<close>

record chatRequest =
  chat_model :: jsstring
  chat_systemInstruction :: jsstring
  chat_temperature :: real
  chat_history :: "turn list"
  chat_message :: jsstring

text \<open>
  The service holds the client of the remote API and the token listener. The two entry
  points of the client are operations on the outside state; \<open>random400\<close> stands for
  the draws of \<open>Math.random() * 400\<close>.
\<close>

record 's GeminiService =
  generateContent :: "genRequest \<Rightarrow> ('s, response) operation"
  sendMessage :: "chatRequest \<Rightarrow> ('s, response) operation"
  tokenListener :: "(int \<Rightarrow> 's \<Rightarrow> 's) option"
  random400 :: "nat \<Rightarrow> int"

definition setTokenListener :: "(int \<Rightarrow> 's \<Rightarrow> 's) \<Rightarrow> 's GeminiService \<Rightarrow> 's GeminiService" where
  "setTokenListener listener svc = svc\<lparr>tokenListener := Some listener\<rparr>"

text \<open>\<open>t?.trim() || d\<close> and \<open>t?.trim() ?? d\<close>: the empty string is falsy but not nullish.\<close>

definition trimmedOr :: "jsstring option \<Rightarrow> jsstring \<Rightarrow> jsstring" where
  "trimmedOr t d = (case t of None \<Rightarrow> d | Some x \<Rightarrow> if trim x = [] then d else trim x)"

definition trimmedNullish :: "jsstring option \<Rightarrow> jsstring \<Rightarrow> jsstring" where
  "trimmedNullish t d = (case t of None \<Rightarrow> d | Some x \<Rightarrow> trim x)"

section \<open>researchLegalPrecedent\<close>

definition runTask ::
  "'s GeminiService \<Rightarrow> jsstring \<Rightarrow> jsstring \<Rightarrow> jsstring \<Rightarrow> ('s, response) operation" where
  "runTask svc mdl system user s =
     (case generateContent svc
             \<lparr>model = mdl, contents = user, systemInstruction = system, temperature = 0.0,
              topP = None, googleSearch = True\<rparr> s of
        (Inl err, s') \<Rightarrow> (Inl err, s')
      | (Inr response, s') \<Rightarrow> (Inr response, trackUsage (tokenListener svc) response s'))"

text \<open>
  The two elements of the \<open>Promise.all\<close> array: the case-law call and the statutes
  call. Both take the defaults \<open>maxRetries = 4\<close> and \<open>baseDelayMs = 1800\<close>.
\<close>

definition caseLawCall ::
  "'s GeminiService \<Rightarrow> jsstring \<Rightarrow> 's \<Rightarrow> (jserr + response) \<times> 's \<times> event list" where
  "caseLawCall svc query =
     withRetry
       (runTask svc MODELS_reasoning
          (js ''You are a Senior Indiana Appellate & Supreme Court Legal Researcher specializing in civil matters. Use recent case law only. Be precise, cite holdings clearly.'')
          (js ''Analyze and summarize recent Indiana civil case law relevant to: '' @ query))
       (Some (runTask svc MODELS_fast
          (js ''Senior Indiana Legal Researcher '' @ [0x2013] @ js '' focus on civil case law'')
          (js ''Recent Indiana civil case law for: '' @ query)))
       4 1800 (random400 svc)"

definition statuteCall ::
  "'s GeminiService \<Rightarrow> jsstring \<Rightarrow> 's \<Rightarrow> (jserr + response) \<times> 's \<times> event list" where
  "statuteCall svc query =
     withRetry
       (runTask svc MODELS_fast
          (js ''You are an expert in Indiana Code across all relevant titles for civil law, including contracts, torts, property, family, and procedural rules like Indiana Trial Rules.'')
          (js ''List and explain relevant Indiana statutes, codes, and Trial Rules for: '' @ query))
       None
       4 1800 (random400 svc)"

record source =
  title :: jsstring
  uri :: jsstring

text \<open>
  \<open>res.candidates?.[0]?.groundingMetadata?.groundingChunks ?? []\<close>: reading index 0
  of an empty array is undefined.
\<close>

definition chunksOf :: "response \<Rightarrow> groundingChunk list" where
  "chunksOf res =
     (case candidates res of
        None \<Rightarrow> []
      | Some [] \<Rightarrow> []
      | Some (c # cs) \<Rightarrow>
          (case groundingMetadata c of
             None \<Rightarrow> []
           | Some g \<Rightarrow> (case groundingChunks g of None \<Rightarrow> [] | Some chunks \<Rightarrow> chunks)))"

text \<open>\<open>c.web?.uri\<close> is truthy when the chunk has a web part with a non-empty uri.\<close>

definition hasUri :: "groundingChunk \<Rightarrow> bool" where
  "hasUri c =
     (case web c of
        None \<Rightarrow> False
      | Some w \<Rightarrow> (case web_uri w of None \<Rightarrow> False | Some u \<Rightarrow> u \<noteq> []))"

definition toSource :: "groundingChunk \<Rightarrow> source" where
  "toSource c =
     (case web c of
        Some w \<Rightarrow>
          \<lparr>title = (case web_title w of Some t \<Rightarrow> t | None \<Rightarrow> js ''Untitled source''),
           uri = (case web_uri w of Some u \<Rightarrow> u | None \<Rightarrow> [])\<rparr>
      | None \<Rightarrow> \<lparr>title = js ''Untitled source'', uri = []\<rparr>)"

definition extractSources :: "response \<Rightarrow> source list" where
  "extractSources res = map toSource (filter hasUri (chunksOf res))"

text \<open>
  A JavaScript \<open>Map\<close> as the list of its entries in insertion order: \<open>set\<close> on a key
  that is present replaces the value and keeps the entry's place, \<open>set\<close> on a new key
  appends. \<open>new Map(entries)\<close> sets the entries from left to right.
\<close>

fun mapSet :: "('k \<times> 'v) list \<Rightarrow> 'k \<Rightarrow> 'v \<Rightarrow> ('k \<times> 'v) list" where
  "mapSet [] k v = [(k, v)]"
| "mapSet ((k', v') # es) k v = (if k' = k then (k', v) # es else (k', v') # mapSet es k v)"

definition newMap :: "('k \<times> 'v) list \<Rightarrow> ('k \<times> 'v) list" where
  "newMap entries = foldl (\<lambda>m (k, v). mapSet m k v) [] entries"

definition mapValues :: "('k \<times> 'v) list \<Rightarrow> 'v list" where
  "mapValues m = map snd m"

definition uniqueSources :: "source list \<Rightarrow> source list" where
  "uniqueSources allSources = mapValues (newMap (map (\<lambda>s. (uri s, s)) allSources))"

record researchReport =
  report_text :: jsstring
  sources :: "source list"

definition assemble :: "response \<Rightarrow> response \<Rightarrow> researchReport" where
  "assemble caseRes statuteRes =
     (let allSources = extractSources caseRes @ extractSources statuteRes;
          unique = uniqueSources allSources;
          combinedText = join (js ''\<newline>'')
            [js ''# Indiana Civil Legal Research Report (Grounded with Google Search)'',
             [],
             js ''## Civil Case Law Analysis'',
             trimmedOr (text_of caseRes) (js ''(no case law summary returned)''),
             [],
             js ''## Relevant Statutes & Trial Rules'',
             trimmedOr (text_of statuteRes) (js ''(no statutes returned)''),
             [],
             js ''**Sources ('' @ toString (length unique) @ js '')**: see below'']
      in \<lparr>report_text = combinedText, sources = unique\<rparr>)"

definition researchFailed :: jserr where
  "researchFailed =
     \<lparr>status = None, code = None,
      message = Some (js ''Failed to complete grounded legal research. The search engine or model may be temporarily unavailable.'')\<rparr>"

text \<open>
  The two calls are pending at the same time in the source: both first requests are sent
  before either is answered, and the retries of the two calls interleave on the backend.
  No order of these requests is fixed here. After \<open>await Promise.all\<close> the function
  reads only what the two promises settled with, so it is modelled from there on:
  \<open>caseSettled\<close> is the outcome of the case-law call and \<open>statuteSettled\<close> the
  outcome of the statutes call, under whatever interleaving took place. When both are
  fulfilled the report is assembled; a rejection of either is caught and replaced by the
  fixed error.
\<close>

definition researchLegalPrecedent ::
  "(jserr + response) \<Rightarrow> (jserr + response) \<Rightarrow> jserr + researchReport" where
  "researchLegalPrecedent caseSettled statuteSettled =
     (case (caseSettled, statuteSettled) of
        (Inr caseRes, Inr statuteRes) \<Rightarrow> Inr (assemble caseRes statuteRes)
      | _ \<Rightarrow> Inl researchFailed)"

text \<open>
  The order in which the distinct elements of a list are first seen, scanning from the
  left.
\<close>

fun firstSeenFrom :: "'a list \<Rightarrow> 'a list \<Rightarrow> 'a list" where
  "firstSeenFrom seen [] = []"
| "firstSeenFrom seen (x # xs) =
     (if x \<in> set seen then firstSeenFrom seen xs else x # firstSeenFrom (seen @ [x]) xs)"

definition firstSeenOrder :: "'a list \<Rightarrow> 'a list" where
  "firstSeenOrder xs = firstSeenFrom [] xs"

section \<open>draftMotion\<close>

definition draftPrompt :: "jsstring \<Rightarrow> CaseFile list \<Rightarrow> jsstring \<Rightarrow> jsstring" where
  "draftPrompt topic files userInstructions =
     (let context = formatCaseFiles files in
        join (js ''\<newline>\<newline>'')
          (filter (\<lambda>x. x \<noteq> [])
             [js ''Draft a professional Indiana civil law motion regarding: '' @ topic,
              if userInstructions \<noteq> []
              then js ''Additional user instructions:\<newline>'' @ userInstructions else [],
              if context \<noteq> [] then js ''CASE CONTEXT:\<newline>'' @ context else []]))"

definition runDraft :: "'s GeminiService \<Rightarrow> jsstring \<Rightarrow> jsstring \<Rightarrow> ('s, response) operation" where
  "runDraft svc prompt mdl =
     generateContent svc
       \<lparr>model = mdl, contents = prompt,
        systemInstruction = js ''You are an experienced Indiana Civil Law Attorney handling all types of civil matters (contracts, torts, property, family, etc.). Draft formal motions in proper legal format: caption, title, numbered paragraphs, prayer for relief, certificate of service, verification block.'',
        temperature = 0.25, topP = Some 0.95, googleSearch = False\<rparr>"

definition draftFailed :: jsstring where
  "draftFailed = js ''// Motion drafting failed '' @ [0x2013] @ js '' please try again''"

definition draftMotion ::
  "'s GeminiService \<Rightarrow> jsstring \<Rightarrow> CaseFile list \<Rightarrow> jsstring \<Rightarrow> 's \<Rightarrow> (jserr + jsstring) \<times> 's" where
  "draftMotion svc topic files userInstructions s =
     (let prompt = draftPrompt topic files userInstructions in
        case withRetry (runDraft svc prompt MODELS_reasoning) (Some (runDraft svc prompt MODELS_fast))
               4 1800 (random400 svc) s of
          (Inl err, s', tr) \<Rightarrow> (Inl err, s')
        | (Inr response, s', tr) \<Rightarrow>
            (Inr (trimmedOr (text_of response) draftFailed),
             trackUsage (tokenListener svc) response s'))"

section \<open>chatWithExpert and the chat view\<close>

definition runChat ::
  "'s GeminiService \<Rightarrow> turn list \<Rightarrow> jsstring \<Rightarrow> jsstring \<Rightarrow> ('s, jsstring) operation" where
  "runChat svc history fullMessage mdl s =
     (case sendMessage svc
             \<lparr>chat_model = mdl,
              chat_systemInstruction = js ''You are HoosierLaw '' @ [0x2013] @ js '' knowledgeable, professional Indiana civil law assistant handling all types of civil matters including contracts, torts, property, family, and more. Be concise, accurate, cite authority when possible.'',
              chat_temperature = 0.45, chat_history = history, chat_message = fullMessage\<rparr> s of
        (Inl err, s') \<Rightarrow> (Inl err, s')
      | (Inr res, s') \<Rightarrow>
          (Inr (trimmedNullish (text_of res) (js ''No response received.'')),
           trackUsage (tokenListener svc) res s'))"

definition chatWithExpert ::
  "'s GeminiService \<Rightarrow> jsstring \<Rightarrow> CaseFile list \<Rightarrow> turn list \<Rightarrow> 's
     \<Rightarrow> (jserr + jsstring) \<times> 's \<times> event list" where
  "chatWithExpert svc msg files history s =
     (let context = formatCaseFiles files;
          fullMessage =
            (if context \<noteq> []
             then js ''CASE DATA (do NOT repeat unless asked):\<newline>'' @ context @
                  js ''\<newline>\<newline>USER: '' @ msg
             else msg)
      in withRetry (runChat svc history fullMessage MODELS_reasoning)
           (Some (runChat svc history fullMessage MODELS_fast)) 4 1800 (random400 svc) s)"

text \<open>
  The state of the \<open>Assistant\<close> component. \<open>now k\<close> is the \<open>k\<close>-th reading of
  \<open>Date.now()\<close> during one \<open>handleSend\<close>.
\<close>

record ChatMessage =
  msg_id :: jsstring
  msg_role :: jsstring
  msg_text :: jsstring
  msg_timestamp :: nat

record Assistant =
  messages :: "ChatMessage list"
  input :: jsstring
  thinking :: bool

definition apology :: jsstring where
  "apology = js ''I encountered an error. Please try again.''"

definition handleSend ::
  "'s GeminiService \<Rightarrow> CaseFile list \<Rightarrow> (nat \<Rightarrow> nat) \<Rightarrow> Assistant \<Rightarrow> 's \<Rightarrow> Assistant \<times> 's" where
  "handleSend svc files now st s =
     (if trim (input st) = [] then (st, s)
      else
        (let userMsg = \<lparr>msg_id = toString (now 0), msg_role = js ''user'', msg_text = input st,
                        msg_timestamp = now 1\<rparr>;
             st1 = st\<lparr>messages := messages st @ [userMsg], input := [], thinking := True\<rparr>;
             history = map (\<lambda>m. \<lparr>role = msg_role m, parts = [Text (msg_text m)]\<rparr>) (messages st)
         in case chatWithExpert svc (msg_text userMsg) files history s of
              (Inr responseText, s', tr) \<Rightarrow>
                (st1\<lparr>messages := messages st1 @
                        [\<lparr>msg_id = toString (now 2), msg_role = js ''model'',
                          msg_text = responseText, msg_timestamp = now 3\<rparr>],
                      thinking := False\<rparr>, s')
            | (Inl e, s', tr) \<Rightarrow>
                (st1\<lparr>messages := messages st1 @
                        [\<lparr>msg_id = toString (now 2), msg_role = js ''model'',
                          msg_text = apology, msg_timestamp = now 3\<rparr>],
                      thinking := False\<rparr>, s')))"

section \<open>Concrete errors, operations and backends\<close>

definition rateLimited :: jserr where
  "rateLimited = \<lparr>status = Some (JNum 429), code = None, message = Some (js ''Too Many Requests'')\<rparr>"

definition badRequest :: jserr where
  "badRequest = \<lparr>status = Some (JNum 400), code = None, message = Some (js ''Bad Request'')\<rparr>"

definition fallbackDown :: jserr where
  "fallbackDown = \<lparr>status = Some (JNum 500), code = None, message = Some (js ''Internal error'')\<rparr>"

text \<open>Operations on a counter of the calls made so far.\<close>

definition failing :: "jserr \<Rightarrow> (nat, nat) operation" where
  "failing err calls = (Inl err, Suc calls)"

definition succeeding :: "nat \<Rightarrow> (nat, nat) operation" where
  "succeeding v calls = (Inr v, Suc calls)"


text \<open>A response with the given text and one grounding chunk per (title, uri) pair.\<close>

definition grounded :: "jsstring option \<Rightarrow> (jsstring \<times> jsstring) list \<Rightarrow> response" where
  "grounded t cites =
     \<lparr>text_of = t, usageMetadata = None,
      candidates = Some
        [\<lparr>groundingMetadata = Some
            \<lparr>groundingChunks = Some
               (map (\<lambda>(ti, u). \<lparr>web = Some \<lparr>web_uri = Some u, web_title = Some ti\<rparr>\<rparr>) cites)\<rparr>\<rparr>]\<rparr>"

definition resA :: response where
  "resA = grounded (Some (js ''A1'')) [(js ''X'', js ''u1'')]"

definition resB :: response where
  "resB = grounded (Some (js ''B1'')) [(js ''Y'', js ''u1'')]"

definition resC :: response where
  "resC = grounded (Some (js ''C1'')) [(js ''Z'', js ''u2'')]"


text \<open>A backend whose every generated text is white space, on a counter of calls.\<close>

definition blankService :: "nat GeminiService" where
  "blankService =
     \<lparr>generateContent = (\<lambda>req calls.
        (Inr \<lparr>text_of = Some (js ''  \<newline> ''), usageMetadata = None, candidates = None\<rparr>, Suc calls)),
      sendMessage = (\<lambda>req calls. (Inl badRequest, Suc calls)),
      tokenListener = None,
      random400 = (\<lambda>a. 0)\<rparr>"

text \<open>A backend that answers every call with a 429, on a counter of calls.\<close>

definition downService :: "nat GeminiService" where
  "downService =
     \<lparr>generateContent = (\<lambda>req calls. (Inl rateLimited, Suc calls)),
      sendMessage = (\<lambda>req calls. (Inl rateLimited, Suc calls)),
      tokenListener = None,
      random400 = (\<lambda>a. 0)\<rparr>"

text \<open>The chat view holding a greeting and a typed question.\<close>

definition chat0 :: Assistant where
  "chat0 =
     \<lparr>messages = [\<lparr>msg_id = js ''1'', msg_role = js ''model'', msg_text = js ''Hello.'',
                   msg_timestamp = 0\<rparr>],
      input = js ''Can I relocate?'', thinking = False\<rparr>"

text \<open>A service whose backend \<open>gen\<close> is wrapped so that every request it receives is
  appended to a log, kept in the outside state next to the state of \<open>gen\<close>.
\<close>

definition logging ::
  "(genRequest \<Rightarrow> ('x, response) operation) \<Rightarrow> genRequest \<Rightarrow> (genRequest list \<times> 'x, response) operation" where
  "logging gen req st = (case gen req (snd st) of (r, x') \<Rightarrow> (r, (fst st @ [req], x')))"

definition loggedService ::
  "(genRequest \<Rightarrow> ('x, response) operation) \<Rightarrow> (nat \<Rightarrow> int) \<Rightarrow> (genRequest list \<times> 'x) GeminiService" where
  "loggedService gen jitter =
     \<lparr>generateContent = logging gen,
      sendMessage = (\<lambda>req st. (Inl badRequest, st)),
      tokenListener = None,
      random400 = jitter\<rparr>"

text \<open>The request that \<open>runTask\<close> sends.\<close>

definition searchRequest :: "jsstring \<Rightarrow> jsstring \<Rightarrow> jsstring \<Rightarrow> genRequest" where
  "searchRequest mdl system user =
     \<lparr>model = mdl, contents = user, systemInstruction = system, temperature = 0.0,
      topP = None, googleSearch = True\<rparr>"

text \<open>A backend that answers every request with a 429.\<close>

definition alwaysLimited :: "genRequest \<Rightarrow> (unit, response) operation" where
  "alwaysLimited req x = (Inl rateLimited, x)"

text \<open>
  A primary that always throws and a fallback that always returns, on a pair of counters:
  the calls of the primary and the calls of the fallback made so far.
\<close>

definition countedPrimary :: "jserr \<Rightarrow> (nat \<times> nat, nat) operation" where
  "countedPrimary err c = (Inl err, (Suc (fst c), snd c))"

definition countedFallback :: "nat \<Rightarrow> (nat \<times> nat, nat) operation" where
  "countedFallback v c = (Inr v, (fst c, Suc (snd c)))"

section \<open>Usage tracking: results\<close>

lemma usageTotal_total_present:
  "usageMetadata r = Some m \<Longrightarrow> totalTokenCount m = Some n \<Longrightarrow> usageTotal r = n"
  by (simp add: usageTotal_def nullish_def)

text \<open>
  C1, as stated, fails: with \<open>totalTokenCount = 0\<close> and \<open>promptTokenCount = 5\<close> the
  listener is not called with 5; it is not called at all, because \<open>??\<close> keeps a total
  that is present, also when it is zero.
\<close>

theorem trackUsage_zero_total_counterexample:
  "trackUsage (Some recording)
     (usageOnly (Some \<lparr>totalTokenCount = Some 0, promptTokenCount = Some 5,
                       candidatesTokenCount = None\<rparr>)) [] \<noteq> [5]"
  by (simp add: trackUsage_def usageTotal_def nullish_def usageOnly_def recording_def)

text \<open>
  C1, amended: the count is the first token field that is present, in the order total,
  prompt, candidates, and zero when none is; the recording listener is called with that
  count exactly when it is strictly positive, and not called otherwise. So a present
  total always wins (a zero total with prompt count 5 gives no call), and a record with
  no token fields, or no usage record at all, gives no call.
\<close>

theorem trackUsage_first_present:
  "trackUsage (Some recording) r calls =
     (if usageTotal r > 0 then calls @ [usageTotal r] else calls)
   \<and> usageTotal (usageOnly (Some \<lparr>totalTokenCount = Some t, promptTokenCount = p,
                                   candidatesTokenCount = c\<rparr>)) = t
   \<and> usageTotal (usageOnly (Some \<lparr>totalTokenCount = None, promptTokenCount = Some q,
                                   candidatesTokenCount = c\<rparr>)) = q
   \<and> usageTotal (usageOnly (Some \<lparr>totalTokenCount = None, promptTokenCount = None,
                                   candidatesTokenCount = Some k\<rparr>)) = k
   \<and> trackUsage (Some recording)
        (usageOnly (Some \<lparr>totalTokenCount = Some 0, promptTokenCount = Some 5,
                          candidatesTokenCount = None\<rparr>)) calls = calls
   \<and> trackUsage (Some recording)
        (usageOnly (Some \<lparr>totalTokenCount = None, promptTokenCount = None,
                          candidatesTokenCount = None\<rparr>)) calls = calls
   \<and> trackUsage (Some recording) (usageOnly None) calls = calls
   \<and> trackUsage None r calls = calls"
  by (simp add: trackUsage_def usageTotal_def nullish_def usageOnly_def recording_def)


section \<open>withRetry: results\<close>

lemma retryLoop_Inr:
  "int attempt \<le> maxRetries \<Longrightarrow> operation s = (Inr v, s1) \<Longrightarrow>
   retryLoop operation maxRetries baseDelayMs jitter attempt lastError s = (Returned v, s1, [Attempt attempt])"
  by (subst retryLoop.simps) simp

lemma retryLoop_break:
  "int attempt \<le> maxRetries \<Longrightarrow> operation s = (Inl err, s1) \<Longrightarrow>
   \<not> isRetryable err \<or> int attempt = maxRetries \<Longrightarrow>
   retryLoop operation maxRetries baseDelayMs jitter attempt lastError s = (Fell (Some err), s1, [Attempt attempt])"
  by (subst retryLoop.simps) auto

lemma retryLoop_retry:
  "int attempt < maxRetries \<Longrightarrow> operation s = (Inl err, s1) \<Longrightarrow> isRetryable err \<Longrightarrow>
   retryLoop operation maxRetries baseDelayMs jitter attempt lastError s =
     (case retryLoop operation maxRetries baseDelayMs jitter (Suc attempt) (Some err) s1 of
        (r, s2, tr) \<Rightarrow>
          (r, s2, Attempt attempt # Backoff attempt (baseDelayMs * 2 ^ attempt + jitter attempt) # tr))"
  by (subst retryLoop.simps) (simp add: Let_def)

lemma retryLoop_skip:
  "\<not> int attempt \<le> maxRetries \<Longrightarrow>
   retryLoop operation maxRetries baseDelayMs jitter attempt lastError s = (Fell lastError, s, [])"
  by (subst retryLoop.simps) simp

lemma retryLoop_all_retryable:
  "n = nat (maxRetries - int attempt) \<Longrightarrow> int attempt \<le> maxRetries \<Longrightarrow>
   failsRetryably (Suc n) operation s \<Longrightarrow>
   \<exists>e. retryLoop operation maxRetries baseDelayMs jitter attempt lastError s =
      (Fell (Some e), stateAfter (Suc n) operation s,
       backoffTrace baseDelayMs jitter attempt (nat maxRetries) @ [Attempt (nat maxRetries)])
      \<and> isRetryable e
      \<and> operation (stateAfter n operation s) = (Inl e, stateAfter (Suc n) operation s)"
proof (induction n arbitrary: attempt lastError s)
  case 0
  then have eq: "int attempt = maxRetries" by simp
  from "0.prems"(3) obtain err s1 where op: "operation s = (Inl err, s1)" and re: "isRetryable err"
    by (auto split: prod.splits sum.splits)
  from eq have "nat maxRetries = attempt" by simp
  then show ?case
    using "0.prems"(2) op eq re
    by (simp add: backoffTrace_def retryLoop_break)
next
  case (Suc n)
  then have lt: "int attempt < maxRetries" and n: "n = nat (maxRetries - int (Suc attempt))"
    and le: "int (Suc attempt) \<le> maxRetries" by simp_all
  from Suc.prems(3) obtain err s1 where op: "operation s = (Inl err, s1)" and re: "isRetryable err"
    and rest: "failsRetryably (Suc n) operation s1"
    by (auto split: prod.splits sum.splits)
  from Suc.IH[OF n le rest, of "Some err"] obtain e where
    r: "retryLoop operation maxRetries baseDelayMs jitter (Suc attempt) (Some err) s1 =
      (Fell (Some e), stateAfter (Suc n) operation s1,
       backoffTrace baseDelayMs jitter (Suc attempt) (nat maxRetries) @ [Attempt (nat maxRetries)])"
    and e: "isRetryable e"
    and la: "operation (stateAfter n operation s1) = (Inl e, stateAfter (Suc n) operation s1)"
    by blast
  from lt have "attempt < nat maxRetries" by simp
  then have up: "[attempt ..< nat maxRetries] = attempt # [Suc attempt ..< nat maxRetries]"
    by (simp add: upt_conv_Cons)
  show ?case
    using lt op re r e la
    by (simp add: backoffTrace_def up retryLoop_retry)
qed

lemma primaryCalls_backoffTrace:
  "primaryCalls (backoffTrace b j a m @ tr) = (m - a) + primaryCalls tr"
  unfolding backoffTrace_def primaryCalls_def
  by (induction m) auto

lemma sleeps_backoffTrace:
  "sleeps (backoffTrace b j a m @ tr) = (m - a) + sleeps tr"
  unfolding backoffTrace_def sleeps_def
  by (induction m) auto

lemma fallbackCalls_backoffTrace:
  "fallbackCalls (backoffTrace b j a m @ tr) = fallbackCalls tr"
  unfolding backoffTrace_def fallbackCalls_def
  by (induction m) auto

lemma retryLoop_bounds:
  "n = nat (maxRetries + 1 - int attempt) \<Longrightarrow>
   retryLoop operation maxRetries baseDelayMs jitter attempt lastError s = (r, s', tr) \<Longrightarrow>
   primaryCalls tr \<le> n \<and> sleeps tr < Suc (primaryCalls tr) \<and> sleeps tr \<le> n - 1 \<and> fallbackCalls tr = 0"
proof (induction n arbitrary: attempt lastError s r s' tr)
  case 0
  then have "\<not> int attempt \<le> maxRetries" by simp
  with "0.prems"(2) show ?case
    by (auto simp: retryLoop_skip primaryCalls_def sleeps_def fallbackCalls_def)
next
  case (Suc n)
  then have le: "int attempt \<le> maxRetries" by simp
  obtain x s1 where op: "operation s = (x, s1)" by (cases "operation s")
  show ?case
  proof (cases x)
    case (Inr v)
    with le op Suc.prems(2) show ?thesis
      by (auto simp: retryLoop_Inr primaryCalls_def sleeps_def fallbackCalls_def)
  next
    case (Inl err)
    show ?thesis
    proof (cases "\<not> isRetryable err \<or> int attempt = maxRetries")
      case True
      have "retryLoop operation maxRetries baseDelayMs jitter attempt lastError s =
          (Fell (Some err), s1, [Attempt attempt])"
        using le op Inl True by (intro retryLoop_break) simp_all
      with Suc.prems(2) show ?thesis
        by (auto simp: primaryCalls_def sleeps_def fallbackCalls_def)
    next
      case False
      with le have lt: "int attempt < maxRetries" and re: "isRetryable err" by simp_all
      from Suc.prems(1) have n: "n = nat (maxRetries + 1 - int (Suc attempt))" by simp
      obtain r2 s2 tr2 where
        rec: "retryLoop operation maxRetries baseDelayMs jitter (Suc attempt) (Some err) s1 = (r2, s2, tr2)"
        by (metis prod_cases3)
      from Suc.IH[OF n rec] have ih: "primaryCalls tr2 \<le> n" "sleeps tr2 < Suc (primaryCalls tr2)"
         "sleeps tr2 \<le> n - 1" "fallbackCalls tr2 = 0"
        by simp_all
      from lt n have "0 < n" by simp
      have "tr = Attempt attempt # Backoff attempt (baseDelayMs * 2 ^ attempt + jitter attempt) # tr2"
        using lt re op Inl rec Suc.prems(2) by (simp add: retryLoop_retry)
      with ih \<open>0 < n\<close> show ?thesis
        by (auto simp: primaryCalls_def sleeps_def fallbackCalls_def)
    qed
  qed
qed

lemma includes_js_iff: "includes_js s p \<longleftrightarrow> (\<exists>u v. s = u @ p @ v)"
proof (induction s)
  case Nil
  then show ?case by auto
next
  case (Cons c cs)
  show ?case
  proof
    assume "includes_js (c # cs) p"
    then consider "prefix p (c # cs)" | "includes_js cs p" by auto
    then show "\<exists>u v. c # cs = u @ p @ v"
    proof cases
      case 1
      then obtain v where "c # cs = p @ v" by (auto simp: prefix_def)
      then have "c # cs = [] @ p @ v" by simp
      then show ?thesis by blast
    next
      case 2
      with Cons.IH obtain u v where "cs = u @ p @ v" by blast
      then have "c # cs = (c # u) @ p @ v" by simp
      then show ?thesis by blast
    qed
  next
    assume "\<exists>u v. c # cs = u @ p @ v"
    then obtain u v where eq: "c # cs = u @ p @ v" by blast
    show "includes_js (c # cs) p"
    proof (cases u)
      case Nil
      with eq have "prefix p (c # cs)" by (simp add: prefix_def)
      then show ?thesis by simp
    next
      case (Cons a u')
      with eq have "cs = u' @ p @ v" by simp
      with Cons.IH have "includes_js cs p" by blast
      then show ?thesis by simp
    qed
  qed
qed

lemma retryLoop_first_event:
  "int attempt \<le> maxRetries \<Longrightarrow>
   \<exists>r s' tr. retryLoop operation maxRetries baseDelayMs jitter attempt lastError s =
     (r, s', Attempt attempt # tr)"
proof -
  assume le: "int attempt \<le> maxRetries"
  obtain x s1 where op: "operation s = (x, s1)" by (cases "operation s")
  show ?thesis
  proof (cases x)
    case (Inr v)
    with le op show ?thesis by (simp add: retryLoop_Inr)
  next
    case (Inl err)
    show ?thesis
    proof (cases "\<not> isRetryable err \<or> int attempt = maxRetries")
      case True
      have "retryLoop operation maxRetries baseDelayMs jitter attempt lastError s =
          (Fell (Some err), s1, [Attempt attempt])"
        using le op Inl True by (intro retryLoop_break) simp_all
      then show ?thesis by simp
    next
      case False
      with le have lt: "int attempt < maxRetries" and re: "isRetryable err" by simp_all
      obtain r2 s2 tr2 where
        "retryLoop operation maxRetries baseDelayMs jitter (Suc attempt) (Some err) s1 = (r2, s2, tr2)"
        by (metis prod_cases3)
      with lt re op Inl show ?thesis by (simp add: retryLoop_retry)
    qed
  qed
qed

lemma messageIncludes_iff:
  "messageIncludes err p \<longleftrightarrow> (\<exists>m. message err = Some m \<and> contains m p)"
  by (simp add: messageIncludes_def contains_def includes_js_iff split: option.splits)

text \<open>
  C6: an error is retryable exactly when its status is 429 or 503, or it has no status and
  its code is 429 or 503 (the source reads \<open>err?.status ?? err?.code\<close>), or its message
  contains one of the markers \<open>quota\<close>, \<open>RESOURCE_EXHAUSTED\<close> (quota exhaustion) or
  \<open>rate limit\<close>. At whichever attempt it is thrown, an error outside this set ends the
  loop at once, with no backoff sleep and no further call of the primary, so that the
  fallback-or-rethrow step is next; a retryable error thrown while attempts remain is
  followed by a backoff sleep and the next attempt.
\<close>

theorem isRetryable_classification:
  "(isRetryable err \<longleftrightarrow>
      status err = Some (JNum 429) \<or> status err = Some (JNum 503) \<or>
      (status err = None \<and> (code err = Some (JNum 429) \<or> code err = Some (JNum 503))) \<or>
      (\<exists>m. message err = Some m \<and>
            (contains m ''quota'' \<or> contains m ''RESOURCE_EXHAUSTED'' \<or> contains m ''rate limit'')))
   \<and> (int attempt \<le> maxRetries \<and> operation s = (Inl err, s1) \<and> \<not> isRetryable err \<longrightarrow>
        retryLoop operation maxRetries baseDelayMs jitter attempt lastError s =
          (Fell (Some err), s1, [Attempt attempt]))
   \<and> (int attempt < maxRetries \<and> operation s = (Inl err, s1) \<and> isRetryable err \<longrightarrow>
        (\<exists>r s2 tr. retryLoop operation maxRetries baseDelayMs jitter attempt lastError s =
           (r, s2, Attempt attempt # Backoff attempt (baseDelayMs * 2 ^ attempt + jitter attempt)
                     # Attempt (Suc attempt) # tr)))"
proof (intro conjI impI)
  show "isRetryable err \<longleftrightarrow>
      status err = Some (JNum 429) \<or> status err = Some (JNum 503) \<or>
      (status err = None \<and> (code err = Some (JNum 429) \<or> code err = Some (JNum 503))) \<or>
      (\<exists>m. message err = Some m \<and>
            (contains m ''quota'' \<or> contains m ''RESOURCE_EXHAUSTED'' \<or> contains m ''rate limit''))"
    unfolding isRetryable_def Let_def messageIncludes_iff nullish_def
    by (cases "status err") auto
next
  assume "int attempt \<le> maxRetries \<and> operation s = (Inl err, s1) \<and> \<not> isRetryable err"
  then show "retryLoop operation maxRetries baseDelayMs jitter attempt lastError s =
          (Fell (Some err), s1, [Attempt attempt])"
    by (intro retryLoop_break) simp_all
next
  assume a: "int attempt < maxRetries \<and> operation s = (Inl err, s1) \<and> isRetryable err"
  then have "int (Suc attempt) \<le> maxRetries" by simp
  from retryLoop_first_event[OF this, of operation baseDelayMs jitter "Some err" s1]
  obtain r s2 tr where
    "retryLoop operation maxRetries baseDelayMs jitter (Suc attempt) (Some err) s1 =
       (r, s2, Attempt (Suc attempt) # tr)" by blast
  with a show "\<exists>r s2 tr. retryLoop operation maxRetries baseDelayMs jitter attempt lastError s =
           (r, s2, Attempt attempt # Backoff attempt (baseDelayMs * 2 ^ attempt + jitter attempt)
                     # Attempt (Suc attempt) # tr)"
    by (simp add: retryLoop_retry)
qed

text \<open>
  C5: when the first call of the primary throws a non-retryable error, \<open>withRetry\<close>
  calls the primary exactly once and never sleeps (the trace holds \<open>Attempt 0\<close> and no
  \<open>Backoff\<close>); it then calls the fallback exactly once when one was given, returning
  its value if it succeeds, and otherwise rethrows the primary's error.
\<close>

theorem withRetry_nonretryable:
  assumes "0 \<le> maxRetries" and "operation s = (Inl err, s1)" and "\<not> isRetryable err"
  shows "withRetry operation fallbackOperation maxRetries baseDelayMs jitter s =
     (case fallbackOperation of
        None \<Rightarrow> (Inl err, s1, [Attempt 0])
      | Some fallback \<Rightarrow>
          (case fallback s1 of
             (Inr v, s2) \<Rightarrow> (Inr v, s2, [Attempt 0, Fallback])
           | (Inl fallbackErr, s2) \<Rightarrow> (Inl err, s2, [Attempt 0, Fallback])))"
proof -
  have "retryLoop operation maxRetries baseDelayMs jitter 0 None s =
          (Fell (Some err), s1, [Attempt 0])"
    using assms by (intro retryLoop_break) simp_all
  then show ?thesis
    by (simp add: withRetry_def split: option.splits prod.splits sum.splits)
qed

lemma retryLoop_state:
  "n = nat (maxRetries + 1 - int attempt) \<Longrightarrow>
   retryLoop operation maxRetries baseDelayMs jitter attempt lastError s = (r, s', tr) \<Longrightarrow>
   s' = stateAfter (primaryCalls tr) operation s"
proof (induction n arbitrary: attempt lastError s r s' tr)
  case 0
  then have "\<not> int attempt \<le> maxRetries" by simp
  with "0.prems"(2) show ?case
    by (auto simp: retryLoop_skip primaryCalls_def)
next
  case (Suc n)
  then have le: "int attempt \<le> maxRetries" by simp
  obtain y s1 where op: "operation s = (y, s1)" by (cases "operation s")
  show ?case
  proof (cases y)
    case (Inr v)
    with le op Suc.prems(2) show ?thesis
      by (auto simp: retryLoop_Inr primaryCalls_def)
  next
    case (Inl err)
    show ?thesis
    proof (cases "\<not> isRetryable err \<or> int attempt = maxRetries")
      case True
      have "retryLoop operation maxRetries baseDelayMs jitter attempt lastError s =
          (Fell (Some err), s1, [Attempt attempt])"
        using le op Inl True by (intro retryLoop_break) simp_all
      with Suc.prems(2) op show ?thesis
        by (auto simp: primaryCalls_def)
    next
      case False
      with le have lt: "int attempt < maxRetries" and re: "isRetryable err" by simp_all
      from Suc.prems(1) have n: "n = nat (maxRetries + 1 - int (Suc attempt))" by simp
      obtain r2 s2 tr2 where
        rec: "retryLoop operation maxRetries baseDelayMs jitter (Suc attempt) (Some err) s1 = (r2, s2, tr2)"
        by (metis prod_cases3)
      from Suc.IH[OF n rec] have ih: "s2 = stateAfter (primaryCalls tr2) operation s1" .
      have "tr = Attempt attempt # Backoff attempt (baseDelayMs * 2 ^ attempt + jitter attempt) # tr2"
        and "s' = s2"
        using lt re op Inl rec Suc.prems(2) by (simp_all add: retryLoop_retry)
      with ih op show ?thesis
        by (simp add: primaryCalls_def)
    qed
  qed
qed

text \<open>
  C4: when the primary fails with a retryable error on each of its \<open>maxRetries + 1\<close>
  calls, \<open>withRetry\<close> calls it exactly \<open>maxRetries + 1\<close> times, sleeping between
  consecutive attempts: the outside state it reaches is the state after
  \<open>maxRetries + 1\<close> calls of the primary, and the error it holds is the one of the
  last of these calls. It then calls the fallback exactly once when one was given, on
  that state, and returns the fallback's value or throws the primary's last error; with
  no fallback it throws that error at once. For any primary and fallback whatever, the
  primary is called at most \<open>maxRetries + 1\<close> times and the fallback at most once: the
  final state is the state after as many primary calls as the trace counts, followed by
  at most one call of the fallback.
\<close>

theorem withRetry_attempt_counts:
  assumes "0 \<le> maxRetries"
  shows "(failsRetryably (nat (maxRetries + 1)) operation s \<longrightarrow>
           (\<exists>e. operation (stateAfter (nat maxRetries) operation s) =
                  (Inl e, stateAfter (nat (maxRetries + 1)) operation s)
              \<and> isRetryable e
              \<and> withRetry operation fallbackOperation maxRetries baseDelayMs jitter s =
                  (case fallbackOperation of
                     None \<Rightarrow>
                       (Inl e, stateAfter (nat (maxRetries + 1)) operation s,
                        backoffTrace baseDelayMs jitter 0 (nat maxRetries) @
                          [Attempt (nat maxRetries)])
                   | Some fallback \<Rightarrow>
                       (case fallback (stateAfter (nat (maxRetries + 1)) operation s) of
                          (Inr v, s2) \<Rightarrow>
                            (Inr v, s2,
                             backoffTrace baseDelayMs jitter 0 (nat maxRetries) @
                               [Attempt (nat maxRetries), Fallback])
                        | (Inl fallbackErr, s2) \<Rightarrow>
                            (Inl e, s2,
                             backoffTrace baseDelayMs jitter 0 (nat maxRetries) @
                               [Attempt (nat maxRetries), Fallback]))))
           \<and> int (primaryCalls (snd (snd (withRetry operation fallbackOperation maxRetries baseDelayMs jitter s))))
                = maxRetries + 1
           \<and> fallbackCalls (snd (snd (withRetry operation fallbackOperation maxRetries baseDelayMs jitter s)))
                = (case fallbackOperation of None \<Rightarrow> 0 | Some fallback \<Rightarrow> 1))
       \<and> (withRetry operation' fallbackOperation' maxRetries baseDelayMs' jitter' s0 = (res, sf, tr) \<longrightarrow>
            int (primaryCalls tr) \<le> maxRetries + 1 \<and> fallbackCalls tr \<le> 1 \<and>
            (case fallbackOperation' of
               None \<Rightarrow> fallbackCalls tr = 0 \<and> sf = stateAfter (primaryCalls tr) operation' s0
             | Some fallback \<Rightarrow>
                 (fallbackCalls tr = 0 \<and> sf = stateAfter (primaryCalls tr) operation' s0) \<or>
                 (fallbackCalls tr = 1 \<and>
                  sf = snd (fallback (stateAfter (primaryCalls tr) operation' s0)))))"
proof (rule conjI; rule impI)
  let ?T = "backoffTrace baseDelayMs jitter 0 (nat maxRetries) @ [Attempt (nat maxRetries)]"
  let ?sN = "stateAfter (nat (maxRetries + 1)) operation s"
  assume f: "failsRetryably (nat (maxRetries + 1)) operation s"
  from assms have n: "nat (maxRetries + 1) = Suc (nat (maxRetries - int 0))"
    and m: "nat (maxRetries - int 0) = nat maxRetries" by simp_all
  from retryLoop_all_retryable[OF refl _ f[unfolded n], of baseDelayMs jitter None] assms
  obtain e where
    loop: "retryLoop operation maxRetries baseDelayMs jitter 0 None s = (Fell (Some e), ?sN, ?T)"
    and e: "isRetryable e"
    and last: "operation (stateAfter (nat maxRetries) operation s) = (Inl e, ?sN)"
    unfolding n m by auto
  have w: "withRetry operation fallbackOperation maxRetries baseDelayMs jitter s =
      (case fallbackOperation of
         None \<Rightarrow> (Inl e, ?sN, ?T)
       | Some fallback \<Rightarrow>
           (case fallback ?sN of
              (Inr v, s2) \<Rightarrow>
                (Inr v, s2,
                 backoffTrace baseDelayMs jitter 0 (nat maxRetries) @ [Attempt (nat maxRetries), Fallback])
            | (Inl fallbackErr, s2) \<Rightarrow>
                (Inl e, s2,
                 backoffTrace baseDelayMs jitter 0 (nat maxRetries) @ [Attempt (nat maxRetries), Fallback])))"
    using loop by (simp add: withRetry_def split: option.splits prod.splits sum.splits)
  have tr: "snd (snd (withRetry operation fallbackOperation maxRetries baseDelayMs jitter s)) =
      ?T @ (case fallbackOperation of None \<Rightarrow> [] | Some fallback \<Rightarrow> [Fallback])"
    unfolding w by (simp split: option.splits prod.splits sum.splits)
  have p: "int (primaryCalls (snd (snd (withRetry operation fallbackOperation maxRetries baseDelayMs jitter s))))
                = maxRetries + 1"
    unfolding tr using assms
    by (simp add: primaryCalls_backoffTrace) (simp add: primaryCalls_def split: option.splits)
  have fc: "fallbackCalls (snd (snd (withRetry operation fallbackOperation maxRetries baseDelayMs jitter s)))
                = (case fallbackOperation of None \<Rightarrow> 0 | Some fallback \<Rightarrow> 1)"
    unfolding tr
    by (simp add: fallbackCalls_backoffTrace) (simp add: fallbackCalls_def split: option.splits)
  from last e w p fc
  show "(\<exists>e. operation (stateAfter (nat maxRetries) operation s) = (Inl e, ?sN)
              \<and> isRetryable e
              \<and> withRetry operation fallbackOperation maxRetries baseDelayMs jitter s =
                  (case fallbackOperation of
                     None \<Rightarrow> (Inl e, ?sN, ?T)
                   | Some fallback \<Rightarrow>
                       (case fallback ?sN of
                          (Inr v, s2) \<Rightarrow>
                            (Inr v, s2,
                             backoffTrace baseDelayMs jitter 0 (nat maxRetries) @
                               [Attempt (nat maxRetries), Fallback])
                        | (Inl fallbackErr, s2) \<Rightarrow>
                            (Inl e, s2,
                             backoffTrace baseDelayMs jitter 0 (nat maxRetries) @
                               [Attempt (nat maxRetries), Fallback]))))
           \<and> int (primaryCalls (snd (snd (withRetry operation fallbackOperation maxRetries baseDelayMs jitter s))))
                = maxRetries + 1
           \<and> fallbackCalls (snd (snd (withRetry operation fallbackOperation maxRetries baseDelayMs jitter s)))
                = (case fallbackOperation of None \<Rightarrow> 0 | Some fallback \<Rightarrow> 1)"
    by blast
next
  assume w: "withRetry operation' fallbackOperation' maxRetries baseDelayMs' jitter' s0 = (res, sf, tr)"
  obtain r s1 tr1 where loop: "retryLoop operation' maxRetries baseDelayMs' jitter' 0 None s0 = (r, s1, tr1)"
    by (metis prod_cases3)
  from retryLoop_bounds[OF refl loop] assms
  have b: "int (primaryCalls tr1) \<le> maxRetries + 1" "fallbackCalls tr1 = 0" by auto
  from retryLoop_state[OF refl loop] have st: "s1 = stateAfter (primaryCalls tr1) operation' s0" .
  have app: "primaryCalls (tr1 @ [Fallback]) = primaryCalls tr1"
    "fallbackCalls (tr1 @ [Fallback]) = Suc (fallbackCalls tr1)"
    by (simp_all add: primaryCalls_def fallbackCalls_def)
  let ?g = "int (primaryCalls tr) \<le> maxRetries + 1 \<and> fallbackCalls tr \<le> 1 \<and>
            (case fallbackOperation' of
               None \<Rightarrow> fallbackCalls tr = 0 \<and> sf = stateAfter (primaryCalls tr) operation' s0
             | Some fallback \<Rightarrow>
                 (fallbackCalls tr = 0 \<and> sf = stateAfter (primaryCalls tr) operation' s0) \<or>
                 (fallbackCalls tr = 1 \<and>
                  sf = snd (fallback (stateAfter (primaryCalls tr) operation' s0))))"
  show ?g
  proof (cases r)
    case (Returned v)
    with w loop have "tr = tr1" "sf = s1" by (simp_all add: withRetry_def)
    with b st show ?g by (simp split: option.splits)
  next
    case (Fell le)
    show ?g
    proof (cases fallbackOperation')
      case None
      with w loop Fell have "tr = tr1" "sf = s1" by (simp_all add: withRetry_def)
      with b st None show ?g by simp
    next
      case (Some fallback)
      obtain y s2 where fb: "fallback s1 = (y, s2)" by (cases "fallback s1")
      with w loop Fell Some have "tr = tr1 @ [Fallback]" "sf = s2"
        by (cases y; simp add: withRetry_def)+
      with b st Some fb show ?g by (simp add: app)
    qed
  qed
qed

lemma retryLoop_Fell:
  "n = nat (maxRetries - int attempt) \<Longrightarrow> int attempt \<le> maxRetries \<Longrightarrow>
   retryLoop operation maxRetries baseDelayMs jitter attempt lastError s = (Fell x, s1, tr) \<Longrightarrow>
   \<exists>err s0. operation s0 = (Inl err, s1) \<and> x = Some err \<and>
     (\<not> isRetryable err \<or> int (primaryCalls tr) = maxRetries + 1 - int attempt)"
proof (induction n arbitrary: attempt lastError s tr)
  case 0
  then have eq: "int attempt = maxRetries" by simp
  obtain y s' where op: "operation s = (y, s')" by (cases "operation s")
  show ?case
  proof (cases y)
    case (Inr v)
    with "0.prems" op show ?thesis by (simp add: retryLoop_Inr)
  next
    case (Inl err)
    have "retryLoop operation maxRetries baseDelayMs jitter attempt lastError s =
          (Fell (Some err), s', [Attempt attempt])"
      using "0.prems"(2) op Inl eq by (intro retryLoop_break) simp_all
    with "0.prems"(3) op Inl eq show ?thesis
      by (auto simp: primaryCalls_def)
  qed
next
  case (Suc n)
  then have lt: "int attempt < maxRetries" and n: "n = nat (maxRetries - int (Suc attempt))"
    and le: "int (Suc attempt) \<le> maxRetries" by simp_all
  obtain y s' where op: "operation s = (y, s')" by (cases "operation s")
  show ?case
  proof (cases y)
    case (Inr v)
    with Suc.prems op show ?thesis by (simp add: retryLoop_Inr)
  next
    case (Inl err)
    show ?thesis
    proof (cases "isRetryable err")
      case False
      have "retryLoop operation maxRetries baseDelayMs jitter attempt lastError s =
          (Fell (Some err), s', [Attempt attempt])"
        using Suc.prems(2) op Inl False by (intro retryLoop_break) simp_all
      with Suc.prems(3) op Inl False show ?thesis by auto
    next
      case True
      obtain r2 s2 tr2 where
        rec: "retryLoop operation maxRetries baseDelayMs jitter (Suc attempt) (Some err) s' = (r2, s2, tr2)"
        by (metis prod_cases3)
      with lt True op Inl Suc.prems(3)
      have eqs: "r2 = Fell x" "s2 = s1"
        "tr = Attempt attempt # Backoff attempt (baseDelayMs * 2 ^ attempt + jitter attempt) # tr2"
        by (simp_all add: retryLoop_retry)
      from Suc.IH[OF n le rec[unfolded eqs(1,2)]] obtain err' s0 where
        "operation s0 = (Inl err', s1)" "x = Some err'"
        "\<not> isRetryable err' \<or> int (primaryCalls tr2) = maxRetries + 1 - int (Suc attempt)"
        by blast
      then show ?thesis
        unfolding eqs(3) by (auto simp: primaryCalls_def)
    qed
  qed
qed

text \<open>
  C2, amended: when the loop is left without a value (the retry budget is exhausted or the
  primary failed with a non-retryable error) and the fallback then throws, \<open>withRetry\<close>
  throws the last error of the primary, not the error of the fallback, which is only
  logged; the fallback has been called once.
\<close>

theorem withRetry_fallback_failure:
  assumes "0 \<le> maxRetries"
    and "retryLoop operation maxRetries baseDelayMs jitter 0 None s = (Fell lastError, s1, tr)"
    and "fallback s1 = (Inl fallbackErr, s2)"
  shows "\<exists>err s0. operation s0 = (Inl err, s1) \<and> lastError = Some err \<and>
           (\<not> isRetryable err \<or> int (primaryCalls tr) = maxRetries + 1) \<and>
           withRetry operation (Some fallback) maxRetries baseDelayMs jitter s =
             (Inl err, s2, tr @ [Fallback])"
proof -
  from retryLoop_Fell[OF refl _ assms(2)] assms(1) obtain err s0 where
    e: "operation s0 = (Inl err, s1)" "lastError = Some err"
       "\<not> isRetryable err \<or> int (primaryCalls tr) = maxRetries + 1"
    by auto
  have "withRetry operation (Some fallback) maxRetries baseDelayMs jitter s =
             (Inl err, s2, tr @ [Fallback])"
    using assms(2,3) e(2) by (simp add: withRetry_def)
  with e show ?thesis by blast
qed

lemma isRetryable_rateLimited: "isRetryable rateLimited"
  by (simp add: isRetryable_def rateLimited_def nullish_def)

lemma not_isRetryable_badRequest: "\<not> isRetryable badRequest"
  by (simp add: isRetryable_def badRequest_def nullish_def messageIncludes_def js_def)

lemma badRequest_neq: "badRequest \<noteq> fallbackDown"
  by (simp add: badRequest_def fallbackDown_def)

text \<open>
  C2, as stated, fails: a primary that throws the non-retryable \<open>badRequest\<close> and a
  fallback that throws \<open>fallbackDown\<close> make \<open>withRetry\<close> throw something other than
  the fallback's error: it throws \<open>badRequest\<close>, the error of the primary.
\<close>

theorem withRetry_fallback_error_counterexample:
  "fst (withRetry (failing badRequest) (Some (failing fallbackDown)) 4 1800 (\<lambda>a. 0) 0)
     \<noteq> Inl fallbackDown"
proof -
  have "retryLoop (failing badRequest) 4 1800 (\<lambda>a. 0) 0 None (0::nat) =
     (Fell (Some badRequest) :: nat loop_exit, 1, [Attempt 0])"
    by (intro retryLoop_break) (simp_all add: failing_def not_isRetryable_badRequest)
  then show ?thesis
    by (simp add: withRetry_def failing_def badRequest_neq)
qed

theorem withRetry_fallback_failure_witness:
  "withRetry (failing badRequest) (Some (failing fallbackDown)) 4 1800 (\<lambda>a. 0) 0 =
     (Inl badRequest, 2, [Attempt 0, Fallback])"
proof -
  have l: "retryLoop (failing badRequest) 4 1800 (\<lambda>a. 0) 0 None (0::nat) =
     (Fell (Some badRequest) :: nat loop_exit, 1, [Attempt 0])"
    by (intro retryLoop_break) (simp_all add: failing_def not_isRetryable_badRequest)
  have f: "failing fallbackDown (1::nat) = (Inl fallbackDown, 2)"
    by (simp add: failing_def)
  from withRetry_fallback_failure[where operation = "failing badRequest"
      and fallback = "failing fallbackDown" and fallbackErr = fallbackDown
      and lastError = "Some badRequest" and tr = "[Attempt 0]", OF _ l f]
  show ?thesis by auto
qed

theorem withRetry_nonretryable_witness:
  "withRetry (failing badRequest) (Some (succeeding 7)) 4 1800 (\<lambda>a. 0) 0 =
     (Inr 7, 2, [Attempt 0, Fallback])
   \<and> withRetry (failing badRequest) None 4 1800 (\<lambda>a. 0) 0 =
     (Inl badRequest :: jserr + nat, 1, [Attempt 0])"
  using withRetry_nonretryable[of 4 "failing badRequest" 0 badRequest 1 "Some (succeeding 7)" 1800 "\<lambda>a. 0"]
    withRetry_nonretryable[of 4 "failing badRequest" 0 badRequest 1 None 1800 "\<lambda>a. 0"]
  by (simp add: not_isRetryable_badRequest failing_def succeeding_def)

lemma failsRetryably_countedPrimary: "failsRetryably n (countedPrimary rateLimited) c"
  by (induction n arbitrary: c) (simp_all add: countedPrimary_def isRetryable_rateLimited)

lemma stateAfter_countedPrimary:
  "stateAfter k (countedPrimary err) (p, f) = (p + k, f)"
  by (induction k arbitrary: p) (simp_all add: countedPrimary_def)

theorem withRetry_attempt_counts_witness:
  "withRetry (countedPrimary rateLimited) (Some (countedFallback 7)) 4 1800 (\<lambda>a. 0) (0, 0) =
     (Inr 7, (5, 1),
      [Attempt 0, Backoff 0 1800, Attempt 1, Backoff 1 3600, Attempt 2, Backoff 2 7200,
       Attempt 3, Backoff 3 14400, Attempt 4, Fallback])
   \<and> withRetry (countedPrimary rateLimited) None 4 1800 (\<lambda>a. 0) (0, 0) =
     (Inl rateLimited :: jserr + nat, (5, 0),
      [Attempt 0, Backoff 0 1800, Attempt 1, Backoff 1 3600, Attempt 2, Backoff 2 7200,
       Attempt 3, Backoff 3 14400, Attempt 4])"
proof -
  have f: "failsRetryably (nat (4 + 1)) (countedPrimary rateLimited) (0, 0)"
    by (rule failsRetryably_countedPrimary)
  have bt: "backoffTrace 1800 (\<lambda>a. 0) 0 4 =
      [Attempt 0, Backoff 0 1800, Attempt 1, Backoff 1 3600, Attempt 2, Backoff 2 7200,
       Attempt 3, Backoff 3 14400]"
    by (simp add: backoffTrace_def upt_rec)
  from withRetry_attempt_counts[where maxRetries = 4 and operation = "countedPrimary rateLimited"
      and s = "(0, 0)" and fallbackOperation = "Some (countedFallback 7)" and baseDelayMs = 1800
      and jitter = "\<lambda>a. 0", THEN conjunct1] f
  have 1: "withRetry (countedPrimary rateLimited) (Some (countedFallback 7)) 4 1800 (\<lambda>a. 0) (0, 0) =
     (Inr 7, (5, 1),
      [Attempt 0, Backoff 0 1800, Attempt 1, Backoff 1 3600, Attempt 2, Backoff 2 7200,
       Attempt 3, Backoff 3 14400, Attempt 4, Fallback])"
    by (auto simp: stateAfter_countedPrimary countedFallback_def bt)
  from withRetry_attempt_counts[where maxRetries = 4 and operation = "countedPrimary rateLimited"
      and s = "(0, 0)" and fallbackOperation = None and baseDelayMs = 1800
      and jitter = "\<lambda>a. 0", THEN conjunct1] f
  have 2: "withRetry (countedPrimary rateLimited) None 4 1800 (\<lambda>a. 0) (0, 0) =
     (Inl rateLimited :: jserr + nat, (5, 0),
      [Attempt 0, Backoff 0 1800, Attempt 1, Backoff 1 3600, Attempt 2, Backoff 2 7200,
       Attempt 3, Backoff 3 14400, Attempt 4])"
    by (auto simp: stateAfter_countedPrimary countedPrimary_def bt)
  from 1 2 show ?thesis by simp
qed

theorem isRetryable_classification_witness:
  "\<not> isRetryable badRequest \<and> isRetryable rateLimited
   \<and> retryLoop (failing badRequest) 4 1800 (\<lambda>a. 0) 2 None 0 =
       (Fell (Some badRequest) :: nat loop_exit, 1, [Attempt 2])
   \<and> (\<exists>r s2 tr. retryLoop (failing rateLimited) 4 1800 (\<lambda>a. 0) 2 None 0 =
       (r :: nat loop_exit, s2, Attempt 2 # Backoff 2 7200 # Attempt 3 # tr))"
  using isRetryable_classification[of badRequest 2 4 "failing badRequest" 0 1 1800 "\<lambda>a. 0" None]
    isRetryable_classification[of rateLimited 2 4 "failing rateLimited" 0 1 1800 "\<lambda>a. 0" None]
  by (simp add: failing_def not_isRetryable_badRequest isRetryable_rateLimited)

section \<open>Citation merge: results\<close>

lemma keys_mapSet:
  "map fst (mapSet m k v) = (if k \<in> fst ` set m then map fst m else map fst m @ [k])"
  by (induction m k v rule: mapSet.induct) auto

lemma set_mapSet: "set (mapSet m k v) \<subseteq> insert (k, v) (set m)"
  by (induction m k v rule: mapSet.induct) auto

lemma keys_foldl_mapSet:
  "map fst (foldl (\<lambda>m (k, v). mapSet m k v) m es) =
     map fst m @ firstSeenFrom (map fst m) (map fst es)"
proof (induction es arbitrary: m)
  case Nil
  then show ?case by simp
next
  case (Cons e es)
  obtain k v where e: "e = (k, v)" by (cases e)
  show ?case
    unfolding e by (simp add: Cons.IH keys_mapSet)
qed

lemma set_foldl_mapSet:
  "set (foldl (\<lambda>m (k, v). mapSet m k v) m es) \<subseteq> set m \<union> set es"
proof (induction es arbitrary: m)
  case Nil
  then show ?case by simp
next
  case (Cons e es)
  obtain k v where e: "e = (k, v)" by (cases e)
  from Cons.IH[of "mapSet m k v"] set_mapSet[of m k v] show ?case
    unfolding e by auto
qed

lemma mapSet_fresh: "k \<notin> fst ` set m \<Longrightarrow> mapSet m k v = m @ [(k, v)]"
  by (induction m k v rule: mapSet.induct) auto

lemma foldl_mapSet_distinct:
  "distinct (map fst (m @ es)) \<Longrightarrow> foldl (\<lambda>m (k, v). mapSet m k v) m es = m @ es"
proof (induction es arbitrary: m)
  case Nil
  then show ?case by simp
next
  case (Cons e es)
  obtain k v where e: "e = (k, v)" by (cases e)
  from Cons.prems have fresh: "k \<notin> fst ` set m" and d: "distinct (map fst ((m @ [(k, v)]) @ es))"
    unfolding e by auto
  show ?case
    unfolding e using Cons.IH[OF d] by (simp add: mapSet_fresh[OF fresh])
qed

lemma set_firstSeenFrom: "set (firstSeenFrom seen xs) = set xs - set seen"
  by (induction seen xs rule: firstSeenFrom.induct) auto

lemma distinct_firstSeenFrom: "distinct (firstSeenFrom seen xs)"
  by (induction seen xs rule: firstSeenFrom.induct) (auto simp: set_firstSeenFrom)

lemma uniqueSources_keys:
  "map uri (uniqueSources xs) = firstSeenOrder (map uri xs)"
proof -
  let ?es = "map (\<lambda>s. (uri s, s)) xs"
  have sub: "set (newMap ?es) \<subseteq> set ?es"
    using set_foldl_mapSet[of "[]" ?es] by (simp add: newMap_def)
  have "\<And>e. e \<in> set (newMap ?es) \<Longrightarrow> uri (snd e) = fst e"
  proof -
    fix e assume "e \<in> set (newMap ?es)"
    with sub have "e \<in> set ?es" by blast
    then show "uri (snd e) = fst e" by auto
  qed
  then have "map uri (map snd (newMap ?es)) = map fst (newMap ?es)"
    by simp
  also have "\<dots> = firstSeenFrom [] (map fst ?es)"
    using keys_foldl_mapSet[of "[]" ?es] by (simp add: newMap_def)
  finally show ?thesis
    by (simp add: uniqueSources_def mapValues_def firstSeenOrder_def comp_def)
qed

lemma uniqueSources_subset: "set (uniqueSources xs) \<subseteq> set xs"
proof -
  let ?es = "map (\<lambda>s. (uri s, s)) xs"
  have "set (newMap ?es) \<subseteq> set ?es"
    using set_foldl_mapSet[of "[]" ?es] by (simp add: newMap_def)
  then show ?thesis
    by (auto simp: uniqueSources_def mapValues_def)
qed

lemma uniqueSources_distinct_keys:
  "distinct (map uri xs) \<Longrightarrow> uniqueSources xs = xs"
proof -
  assume d: "distinct (map uri xs)"
  let ?es = "map (\<lambda>s. (uri s, s)) xs"
  have "distinct (map fst ([] @ ?es))" using d by (simp add: comp_def)
  from foldl_mapSet_distinct[OF this] show ?thesis
    by (simp add: uniqueSources_def mapValues_def newMap_def comp_def)
qed

text \<open>
  C7: the merged citation list of \<open>researchLegalPrecedent\<close> has exactly one entry per
  distinct URI, in the order in which the URIs are first seen when the case-law sources
  are scanned before the statutes sources; every entry is one of the extracted sources;
  when all extracted URIs differ the result is the whole concatenation; and this list is
  what \<open>researchLegalPrecedent\<close> returns when both role calls are fulfilled, in whatever
  order their requests were served.
\<close>

theorem merged_sources_first_seen:
  "map uri (sources (assemble caseRes statuteRes)) =
     firstSeenOrder (map uri (extractSources caseRes) @ map uri (extractSources statuteRes))
   \<and> distinct (map uri (sources (assemble caseRes statuteRes)))
   \<and> set (map uri (sources (assemble caseRes statuteRes))) =
       set (map uri (extractSources caseRes)) \<union> set (map uri (extractSources statuteRes))
   \<and> set (sources (assemble caseRes statuteRes)) \<subseteq>
       set (extractSources caseRes) \<union> set (extractSources statuteRes)
   \<and> (distinct (map uri (extractSources caseRes @ extractSources statuteRes)) \<longrightarrow>
        sources (assemble caseRes statuteRes) = extractSources caseRes @ extractSources statuteRes)
   \<and> researchLegalPrecedent (Inr caseRes) (Inr statuteRes) = Inr (assemble caseRes statuteRes)"
proof -
  let ?all = "extractSources caseRes @ extractSources statuteRes"
  have src: "sources (assemble caseRes statuteRes) = uniqueSources ?all"
    by (simp add: assemble_def Let_def)
  have keys: "map uri (uniqueSources ?all) = firstSeenOrder (map uri ?all)"
    by (rule uniqueSources_keys)
  have d: "distinct (map uri (uniqueSources ?all))"
    unfolding keys firstSeenOrder_def by (rule distinct_firstSeenFrom)
  have st: "set (map uri (uniqueSources ?all)) = set (map uri ?all)"
    unfolding keys firstSeenOrder_def by (simp add: set_firstSeenFrom)
  have sub: "set (uniqueSources ?all) \<subseteq> set ?all"
    by (rule uniqueSources_subset)
  have un: "distinct (map uri ?all) \<longrightarrow> uniqueSources ?all = ?all"
    using uniqueSources_distinct_keys by blast
  have res: "researchLegalPrecedent (Inr caseRes) (Inr statuteRes) =
      Inr (assemble caseRes statuteRes)"
    by (simp add: researchLegalPrecedent_def)
  show ?thesis
    unfolding src using keys d st sub un res by simp
qed

lemma extractSources_grounded:
  "extractSources (grounded t [(ti, u)]) = (if u = [] then [] else [\<lparr>title = ti, uri = u\<rparr>])"
  by (simp add: extractSources_def grounded_def chunksOf_def hasUri_def toSource_def)

theorem merged_sources_first_seen_witness:
  "map uri (sources (assemble resA resB)) = [js ''u1'']
   \<and> sources (assemble resA resC) =
       [\<lparr>title = js ''X'', uri = js ''u1''\<rparr>, \<lparr>title = js ''Z'', uri = js ''u2''\<rparr>]"
proof -
  have a: "extractSources resA = [\<lparr>title = js ''X'', uri = js ''u1''\<rparr>]"
    and b: "extractSources resB = [\<lparr>title = js ''Y'', uri = js ''u1''\<rparr>]"
    and c: "extractSources resC = [\<lparr>title = js ''Z'', uri = js ''u2''\<rparr>]"
    by (simp_all add: resA_def resB_def resC_def extractSources_grounded js_def)
  have d: "distinct (map uri (extractSources resA @ extractSources resC))"
    by (simp add: a c js_def)
  from merged_sources_first_seen[of resA resB, THEN conjunct1]
  have 1: "map uri (sources (assemble resA resB)) = [js ''u1'']"
    by (simp add: a b firstSeenOrder_def)
  from merged_sources_first_seen[of resA resC, THEN conjunct2, THEN conjunct2,
      THEN conjunct2, THEN conjunct2, THEN conjunct1] d
  have 2: "sources (assemble resA resC) = extractSources resA @ extractSources resC"
    by blast
  from 1 2 show ?thesis by (simp add: a c)
qed

section \<open>formatCaseFiles: results\<close>






lemma length_trim_le: "length (trim s) \<le> length s"
proof -
  have "length (trim s) \<le> length (dropWhile isWhiteSpace s)"
    unfolding trim_def using length_dropWhile_le[of isWhiteSpace "rev (dropWhile isWhiteSpace s)"]
    by simp
  also have "\<dots> \<le> length s" by (rule length_dropWhile_le)
  finally show ?thesis .
qed





section \<open>draftMotion: results\<close>

lemma trim_eq_Nil_iff: "trim s = [] \<longleftrightarrow> (\<forall>c\<in>set s. isWhiteSpace c)"
proof -
  let ?t = "dropWhile isWhiteSpace s"
  have "trim s = [] \<longleftrightarrow> (\<forall>c\<in>set ?t. isWhiteSpace c)"
    by (simp add: trim_def dropWhile_eq_Nil_conv)
  also have "\<dots> \<longleftrightarrow> ?t = []"
  proof
    assume a: "\<forall>c\<in>set ?t. isWhiteSpace c"
    show "?t = []"
    proof (rule ccontr)
      assume ne: "?t \<noteq> []"
      then have "\<not> isWhiteSpace (hd ?t)" by (rule hd_dropWhile)
      moreover from ne have "hd ?t \<in> set ?t" by simp
      ultimately show False using a by blast
    qed
  next
    assume "?t = []"
    then show "\<forall>c\<in>set ?t. isWhiteSpace c" by (auto dest: set_dropWhileD)
  qed
  also have "\<dots> \<longleftrightarrow> (\<forall>c\<in>set s. isWhiteSpace c)"
    by (simp add: dropWhile_eq_Nil_conv)
  finally show ?thesis .
qed

lemma trim_not_blank: "trim s \<noteq> [] \<Longrightarrow> \<exists>c\<in>set (trim s). \<not> isWhiteSpace c"
proof -
  let ?u = "dropWhile isWhiteSpace (rev (dropWhile isWhiteSpace s))"
  assume "trim s \<noteq> []"
  then have ne: "?u \<noteq> []" by (simp add: trim_def)
  then have "\<not> isWhiteSpace (hd ?u)" by (rule hd_dropWhile)
  moreover from ne have "hd ?u \<in> set ?u" by simp
  ultimately show ?thesis by (auto simp: trim_def)
qed

lemma draftFailed_not_blank: "draftFailed \<noteq> [] \<and> (\<exists>c\<in>set draftFailed. \<not> isWhiteSpace c)"
proof -
  have "of_char CHR ''/'' \<in> set draftFailed"
    by (simp add: draftFailed_def js_def)
  moreover have "\<not> isWhiteSpace (of_char CHR ''/'')"
    by (simp add: isWhiteSpace_def)
  ultimately show ?thesis by auto
qed

lemma trimmedOr_not_blank:
  "d \<noteq> [] \<Longrightarrow> \<exists>c\<in>set d. \<not> isWhiteSpace c \<Longrightarrow>
   trimmedOr t d \<noteq> [] \<and> (\<exists>c\<in>set (trimmedOr t d). \<not> isWhiteSpace c)"
  using trim_not_blank by (auto simp: trimmedOr_def split: option.splits)

lemma trimmedOr_blank:
  "t = None \<or> (\<exists>x. t = Some x \<and> (\<forall>c\<in>set x. isWhiteSpace c)) \<Longrightarrow> trimmedOr t d = d"
  by (auto simp: trimmedOr_def trim_eq_Nil_iff split: option.splits)

text \<open>
  C10: when the retried model call of \<open>draftMotion\<close> succeeds with a response whose text
  is absent, empty or made of white space only, \<open>draftMotion\<close> returns the fixed
  placeholder \<open>// Motion drafting failed - please try again\<close> (with an en dash, code unit
  0x2013); and whatever a successful \<open>draftMotion\<close> returns is neither empty nor made
  of white space only.
\<close>

theorem draftMotion_placeholder:
  "(withRetry (runDraft svc (draftPrompt topic files userInstructions) MODELS_reasoning)
       (Some (runDraft svc (draftPrompt topic files userInstructions) MODELS_fast))
       4 1800 (random400 svc) s = (Inr response, s1, tr)
     \<and> (text_of response = None \<or>
        (\<exists>x. text_of response = Some x \<and> (\<forall>c\<in>set x. isWhiteSpace c)))
     \<longrightarrow> fst (draftMotion svc topic files userInstructions s) =
           Inr (js ''// Motion drafting failed '' @ [0x2013] @ js '' please try again''))
   \<and> (fst (draftMotion svc topic files userInstructions s) = Inr out \<longrightarrow>
        out \<noteq> [] \<and> (\<exists>c\<in>set out. \<not> isWhiteSpace c))"
proof (rule conjI; rule impI)
  assume a: "withRetry (runDraft svc (draftPrompt topic files userInstructions) MODELS_reasoning)
       (Some (runDraft svc (draftPrompt topic files userInstructions) MODELS_fast))
       4 1800 (random400 svc) s = (Inr response, s1, tr)
     \<and> (text_of response = None \<or>
        (\<exists>x. text_of response = Some x \<and> (\<forall>c\<in>set x. isWhiteSpace c)))"
  then have "trimmedOr (text_of response) draftFailed = draftFailed"
    by (intro trimmedOr_blank) simp
  with a show "fst (draftMotion svc topic files userInstructions s) =
           Inr (js ''// Motion drafting failed '' @ [0x2013] @ js '' please try again'')"
    by (simp add: draftMotion_def Let_def draftFailed_def)
next
  assume b: "fst (draftMotion svc topic files userInstructions s) = Inr out"
  obtain r s' tr' where w: "withRetry (runDraft svc (draftPrompt topic files userInstructions) MODELS_reasoning)
       (Some (runDraft svc (draftPrompt topic files userInstructions) MODELS_fast))
       4 1800 (random400 svc) s = (r, s', tr')" by (metis prod_cases3)
  let ?g = "out \<noteq> [] \<and> (\<exists>c\<in>set out. \<not> isWhiteSpace c)"
  show ?g
  proof (cases r)
    case (Inl e)
    with b w show ?g by (simp add: draftMotion_def Let_def)
  next
    case (Inr resp)
    with b w have out: "out = trimmedOr (text_of resp) draftFailed"
      by (simp add: draftMotion_def Let_def)
    have "trimmedOr (text_of resp) draftFailed \<noteq> [] \<and>
        (\<exists>c\<in>set (trimmedOr (text_of resp) draftFailed). \<not> isWhiteSpace c)"
      using draftFailed_not_blank by (intro trimmedOr_not_blank) simp_all
    then show ?g unfolding out .
  qed
qed

theorem draftMotion_placeholder_witness:
  "draftMotion blankService (js ''relocation'') [] [] 0 =
     (Inr (js ''// Motion drafting failed '' @ [0x2013] @ js '' please try again''), 1)
   \<and> (\<exists>c\<in>set (js ''// Motion drafting failed '' @ [0x2013] @ js '' please try again'').
         \<not> isWhiteSpace c)"
proof -
  let ?p = "draftPrompt (js ''relocation'') [] []"
  let ?r = "\<lparr>text_of = Some (js ''  \<newline> ''), usageMetadata = None, candidates = None\<rparr>"
  have op: "runDraft blankService ?p MODELS_reasoning 0 = (Inr ?r, 1)"
    by (simp add: runDraft_def blankService_def)
  have loop: "retryLoop (runDraft blankService ?p MODELS_reasoning) 4 1800 (\<lambda>a. 0) 0 None 0 =
      (Returned ?r, 1, [Attempt 0])"
    using op by (intro retryLoop_Inr) simp_all
  have w: "withRetry (runDraft blankService ?p MODELS_reasoning)
       (Some (runDraft blankService ?p MODELS_fast)) 4 1800 (random400 blankService) 0 =
       (Inr ?r, 1, [Attempt 0])"
    using loop by (simp add: withRetry_def blankService_def)
  have blank: "\<forall>c\<in>set (js ''  \<newline> ''). isWhiteSpace c"
    by (simp add: js_def isWhiteSpace_def)
  have st: "snd (draftMotion blankService (js ''relocation'') [] [] 0) = 1"
    using w by (simp add: draftMotion_def Let_def trackUsage_def blankService_def)
  note t = draftMotion_placeholder[of blankService "js ''relocation''" "[]" "[]" 0 ?r 1 "[Attempt 0]"
      "js ''// Motion drafting failed '' @ [0x2013] @ js '' please try again''"]
  from t[THEN conjunct1] w blank
  have 1: "fst (draftMotion blankService (js ''relocation'') [] [] 0) =
      Inr (js ''// Motion drafting failed '' @ [0x2013] @ js '' please try again'')"
    by simp
  from t[THEN conjunct2] 1
  have 2: "\<exists>c\<in>set (js ''// Motion drafting failed '' @ [0x2013] @ js '' please try again'').
         \<not> isWhiteSpace c" by blast
  from 1 st 2 show ?thesis by (simp add: prod_eq_iff)
qed

section \<open>Chat: results\<close>

lemma retryLoop_never_returns:
  "\<forall>x. \<exists>e x'. operation x = (Inl e, x') \<Longrightarrow> n = nat (maxRetries + 1 - int attempt) \<Longrightarrow>
   \<exists>le s' tr. retryLoop operation maxRetries baseDelayMs jitter attempt lastError s = (Fell le, s', tr)"
proof (induction n arbitrary: attempt lastError s)
  case 0
  then have "\<not> int attempt \<le> maxRetries" by simp
  then show ?case by (simp add: retryLoop_skip)
next
  case (Suc n)
  then have le: "int attempt \<le> maxRetries" by simp
  from Suc.prems(1) obtain err s1 where op: "operation s = (Inl err, s1)" by blast
  show ?case
  proof (cases "\<not> isRetryable err \<or> int attempt = maxRetries")
    case True
    have "retryLoop operation maxRetries baseDelayMs jitter attempt lastError s =
          (Fell (Some err), s1, [Attempt attempt])"
      using le op True by (intro retryLoop_break) simp_all
    then show ?thesis by blast
  next
    case False
    with le have lt: "int attempt < maxRetries" and re: "isRetryable err" by simp_all
    from Suc.prems(2) have n: "n = nat (maxRetries + 1 - int (Suc attempt))" by simp
    from Suc.IH[OF Suc.prems(1) n, of "Some err" s1] obtain le' s' tr where
      "retryLoop operation maxRetries baseDelayMs jitter (Suc attempt) (Some err) s1 = (Fell le', s', tr)"
      by blast
    with lt re op show ?thesis by (simp add: retryLoop_retry)
  qed
qed

lemma withRetry_all_fail:
  assumes "\<forall>x. \<exists>e x'. operation x = (Inl e, x')" and "\<forall>x. \<exists>e x'. fallback x = (Inl e, x')"
  shows "\<exists>e s' tr. withRetry operation (Some fallback) maxRetries baseDelayMs jitter s = (Inl e, s', tr)"
proof -
  from retryLoop_never_returns[OF assms(1) refl, where maxRetries = maxRetries and attempt = 0
      and baseDelayMs = baseDelayMs and jitter = jitter and lastError = None and s = s]
  obtain le s1 tr where
    l: "retryLoop operation maxRetries baseDelayMs jitter 0 None s = (Fell le, s1, tr)" by blast
  from assms(2) obtain fe s2 where f: "fallback s1 = (Inl fe, s2)" by blast
  show ?thesis by (simp add: withRetry_def l f)
qed

lemma chatWithExpert_all_fail:
  assumes "\<forall>req x. \<exists>err x'. sendMessage svc req x = (Inl err, x')"
  shows "\<exists>e s' tr. chatWithExpert svc msg files history s = (Inl e, s', tr)"
proof -
  have "\<And>h m mdl. \<forall>x. \<exists>e x'. runChat svc h m mdl x = (Inl e, x')"
  proof
    fix h m mdl x
    from assms obtain err x' where
      "sendMessage svc
         \<lparr>chat_model = mdl,
          chat_systemInstruction = js ''You are HoosierLaw '' @ [0x2013] @ js '' knowledgeable, professional Indiana civil law assistant handling all types of civil matters including contracts, torts, property, family, and more. Be concise, accurate, cite authority when possible.'',
          chat_temperature = 0.45, chat_history = h, chat_message = m\<rparr> x = (Inl err, x')"
      by blast
    then show "\<exists>e x'. runChat svc h m mdl x = (Inl e, x')"
      by (simp add: runChat_def)
  qed
  then show ?thesis
    unfolding chatWithExpert_def Let_def by (intro withRetry_all_fail) simp_all
qed

text \<open>
  C9: a chat send (non-blank input) whose call of \<open>chatWithExpert\<close> throws, that is
  whose retries and fallback are exhausted, does not throw: \<open>handleSend\<close> appends the
  user turn and then a model turn with the fixed text
  \<open>I encountered an error. Please try again.\<close>, whatever the error was, so the history
  grows by exactly 2. And \<open>chatWithExpert\<close> does throw when every call of the
  backend fails.
\<close>

theorem handleSend_failure_appends_apology:
  "(trim (input st) \<noteq> [] \<and>
    chatWithExpert svc (input st) files
      (map (\<lambda>m. \<lparr>role = msg_role m, parts = [Text (msg_text m)]\<rparr>) (messages st)) s = (Inl e, s', tr)
    \<longrightarrow>
      handleSend svc files now st s =
        (st\<lparr>messages := messages st @
              [\<lparr>msg_id = toString (now 0), msg_role = js ''user'', msg_text = input st,
                msg_timestamp = now 1\<rparr>,
               \<lparr>msg_id = toString (now 2), msg_role = js ''model'',
                msg_text = js ''I encountered an error. Please try again.'',
                msg_timestamp = now 3\<rparr>],
            input := [], thinking := False\<rparr>, s')
      \<and> length (messages (fst (handleSend svc files now st s))) = length (messages st) + 2)
   \<and> ((\<forall>req x. \<exists>err x'. sendMessage svc req x = (Inl err, x')) \<longrightarrow>
        (\<exists>e s' tr. chatWithExpert svc msg files0 history s0 = (Inl e, s', tr)))"
proof (rule conjI; rule impI)
  assume a: "trim (input st) \<noteq> [] \<and>
    chatWithExpert svc (input st) files
      (map (\<lambda>m. \<lparr>role = msg_role m, parts = [Text (msg_text m)]\<rparr>) (messages st)) s = (Inl e, s', tr)"
  then have h: "handleSend svc files now st s =
        (st\<lparr>messages := messages st @
              [\<lparr>msg_id = toString (now 0), msg_role = js ''user'', msg_text = input st,
                msg_timestamp = now 1\<rparr>,
               \<lparr>msg_id = toString (now 2), msg_role = js ''model'',
                msg_text = js ''I encountered an error. Please try again.'',
                msg_timestamp = now 3\<rparr>],
            input := [], thinking := False\<rparr>, s')"
    by (simp add: handleSend_def Let_def apology_def)
  show "handleSend svc files now st s =
        (st\<lparr>messages := messages st @
              [\<lparr>msg_id = toString (now 0), msg_role = js ''user'', msg_text = input st,
                msg_timestamp = now 1\<rparr>,
               \<lparr>msg_id = toString (now 2), msg_role = js ''model'',
                msg_text = js ''I encountered an error. Please try again.'',
                msg_timestamp = now 3\<rparr>],
            input := [], thinking := False\<rparr>, s')
      \<and> length (messages (fst (handleSend svc files now st s))) = length (messages st) + 2"
    unfolding h by simp
next
  assume "\<forall>req x. \<exists>err x'. sendMessage svc req x = (Inl err, x')"
  then show "\<exists>e s' tr. chatWithExpert svc msg files0 history s0 = (Inl e, s', tr)"
    by (rule chatWithExpert_all_fail)
qed

theorem handleSend_failure_appends_apology_witness:
  "messages (fst (handleSend downService [] (\<lambda>k. 1000 + k) chat0 0)) =
     [\<lparr>msg_id = js ''1'', msg_role = js ''model'', msg_text = js ''Hello.'', msg_timestamp = 0\<rparr>,
      \<lparr>msg_id = toString 1000, msg_role = js ''user'', msg_text = js ''Can I relocate?'',
        msg_timestamp = 1001\<rparr>,
      \<lparr>msg_id = toString 1002, msg_role = js ''model'',
        msg_text = js ''I encountered an error. Please try again.'', msg_timestamp = 1003\<rparr>]
   \<and> length (messages (fst (handleSend downService [] (\<lambda>k. 1000 + k) chat0 0))) =
       length (messages chat0) + 2"
proof -
  let ?h = "map (\<lambda>m. \<lparr>role = msg_role m, parts = [Text (msg_text m)]\<rparr>) (messages chat0)"
  have down: "\<forall>req x. \<exists>err x'. sendMessage downService req x = (Inl err, x')"
    by (simp add: downService_def)
  from handleSend_failure_appends_apology[where svc = downService and msg = "input chat0"
      and ?files0.0 = "[]" and history = ?h and ?s0.0 = 0, THEN conjunct2] down
  obtain e s' tr where c: "chatWithExpert downService (input chat0) [] ?h 0 = (Inl e, s', tr)"
    by blast
  have t: "trim (input chat0) \<noteq> []"
    by (simp add: chat0_def trim_def js_def isWhiteSpace_def)
  from handleSend_failure_appends_apology[where svc = downService and st = chat0 and files = "[]"
      and s = 0 and e = e and s' = s' and tr = tr and now = "\<lambda>k. 1000 + k", THEN conjunct1] t c
  show ?thesis by (simp add: chat0_def)
qed

section \<open>Research role calls: results\<close>

lemma runTask_logged_fails:
  assumes "\<forall>req x. \<exists>err x'. gen req x = (Inl err, x') \<and> isRetryable err"
  shows "\<exists>err x'. runTask (loggedService gen j) m sy u (reqs, x) =
           (Inl err, (reqs @ [searchRequest m sy u], x')) \<and> isRetryable err"
proof -
  from assms obtain err x' where "gen (searchRequest m sy u) x = (Inl err, x')" "isRetryable err"
    by blast
  then show ?thesis
    by (simp add: runTask_def loggedService_def logging_def searchRequest_def)
qed

lemma failsRetryably_runTask:
  assumes "\<forall>req x. \<exists>err x'. gen req x = (Inl err, x') \<and> isRetryable err"
  shows "failsRetryably n (runTask (loggedService gen j) m sy u) st"
proof (induction n arbitrary: st)
  case 0
  then show ?case by simp
next
  case (Suc n)
  obtain reqs x where st: "st = (reqs, x)" by (cases st)
  from runTask_logged_fails[OF assms, of j m sy u reqs x] obtain err x' where
    "runTask (loggedService gen j) m sy u (reqs, x) = (Inl err, (reqs @ [searchRequest m sy u], x'))"
    "isRetryable err" by blast
  with Suc.IH show ?case unfolding st by simp
qed

lemma stateAfter_runTask_log:
  assumes "\<forall>req x. \<exists>err x'. gen req x = (Inl err, x') \<and> isRetryable err"
  shows "fst (stateAfter k (runTask (loggedService gen j) m sy u) (reqs, x)) =
           reqs @ replicate k (searchRequest m sy u)"
proof (induction k arbitrary: reqs x)
  case 0
  then show ?case by simp
next
  case (Suc k)
  from runTask_logged_fails[OF assms, of j m sy u reqs x] obtain err x' where
    r: "runTask (loggedService gen j) m sy u (reqs, x) = (Inl err, (reqs @ [searchRequest m sy u], x'))"
    by blast
  show ?case
    by (simp add: r Suc.IH replicate_app_Cons_same)
qed

lemma retryLoop_runTask_down:
  assumes "\<forall>req x. \<exists>err x'. gen req x = (Inl err, x') \<and> isRetryable err"
  shows "\<exists>e reqs' x'. retryLoop (runTask (loggedService gen j) m sy u) 4 1800 j 0 None ([], x) =
      (Fell (Some e), (reqs', x'), backoffTrace 1800 j 0 4 @ [Attempt 4])
      \<and> isRetryable e \<and> reqs' = replicate 5 (searchRequest m sy u)"
proof -
  let ?op = "runTask (loggedService gen j) m sy u"
  have f: "failsRetryably (Suc 4) ?op ([], x)"
    by (rule failsRetryably_runTask[OF assms])
  have n: "(4::nat) = nat (4 - int 0)" by simp
  from retryLoop_all_retryable[OF n _ f, of 1800 j None]
  obtain e where l: "retryLoop ?op 4 1800 j 0 None ([], x) =
      (Fell (Some e), stateAfter (Suc 4) ?op ([], x), backoffTrace 1800 j 0 4 @ [Attempt 4])"
    and e: "isRetryable e" by auto
  have "fst (stateAfter (Suc 4) ?op ([], x)) = [] @ replicate (Suc 4) (searchRequest m sy u)"
    by (rule stateAfter_runTask_log[OF assms])
  then have "fst (stateAfter (Suc 4) ?op ([], x)) = replicate 5 (searchRequest m sy u)"
    by (simp add: numeral_eq_Suc)
  then obtain x' where "stateAfter (Suc 4) ?op ([], x) = (replicate 5 (searchRequest m sy u), x')"
    by (cases "stateAfter (Suc 4) ?op ([], x)") simp
  with l e show ?thesis by simp
qed

lemma withRetry_logged_fallback:
  assumes "\<forall>req x. \<exists>err x'. gen req x = (Inl err, x') \<and> isRetryable err"
  shows "\<exists>e x'. withRetry (runTask (loggedService gen j) m1 sy1 u1)
             (Some (runTask (loggedService gen j) m2 sy2 u2)) 4 1800 j ([], x) =
      (Inl e, (replicate 5 (searchRequest m1 sy1 u1) @ [searchRequest m2 sy2 u2], x'),
       backoffTrace 1800 j 0 4 @ [Attempt 4] @ [Fallback])"
proof -
  from retryLoop_runTask_down[OF assms, of j m1 sy1 u1 x]
  obtain e xa where l: "retryLoop (runTask (loggedService gen j) m1 sy1 u1) 4 1800 j 0 None ([], x) =
      (Fell (Some e), (replicate 5 (searchRequest m1 sy1 u1), xa),
       backoffTrace 1800 j 0 4 @ [Attempt 4])"
    by blast
  from runTask_logged_fails[OF assms, of j m2 sy2 u2 "replicate 5 (searchRequest m1 sy1 u1)" xa]
  obtain fe xb where fb: "runTask (loggedService gen j) m2 sy2 u2
        (replicate 5 (searchRequest m1 sy1 u1), xa) =
      (Inl fe, (replicate 5 (searchRequest m1 sy1 u1) @ [searchRequest m2 sy2 u2], xb))"
    by blast
  show ?thesis
    by (simp add: withRetry_def l fb)
qed

lemma withRetry_logged_no_fallback:
  assumes "\<forall>req x. \<exists>err x'. gen req x = (Inl err, x') \<and> isRetryable err"
  shows "\<exists>e x'. withRetry (runTask (loggedService gen j) m1 sy1 u1) None 4 1800 j ([], x) =
      (Inl e, (replicate 5 (searchRequest m1 sy1 u1), x'), backoffTrace 1800 j 0 4 @ [Attempt 4])
      \<and> isRetryable e"
proof -
  from retryLoop_runTask_down[OF assms, of j m1 sy1 u1 x]
  obtain e xa where l: "retryLoop (runTask (loggedService gen j) m1 sy1 u1) 4 1800 j 0 None ([], x) =
      (Fell (Some e), (replicate 5 (searchRequest m1 sy1 u1), xa),
       backoffTrace 1800 j 0 4 @ [Attempt 4])" and e: "isRetryable e"
    by blast
  show ?thesis
    by (simp add: withRetry_def l e)
qed

lemma random400_loggedService: "random400 (loggedService gen j) = j"
  by (simp add: loggedService_def)

lemma model_searchRequest: "model (searchRequest m sy u) = m"
  by (simp add: searchRequest_def)

text \<open>
  C3, amended: both role calls of \<open>researchLegalPrecedent\<close> go through \<open>withRetry\<close>,
  but only the case-law call has a fallback. With a backend that answers every request
  with a retryable error, the case-law call asks the reasoning model 5 times, then the
  fast model once (its fallback), and fails; the statutes call asks the fast model 5
  times, makes no fallback attempt, and fails with the last retryable error.
\<close>

theorem research_roles_retry_and_fallback:
  assumes "\<forall>req x. \<exists>err x'. gen req x = (Inl err, x') \<and> isRetryable err"
  shows "\<exists>e1 reqs1 x1 tr1 e2 reqs2 x2 tr2.
     caseLawCall (loggedService gen j) query ([], x) = (Inl e1, (reqs1, x1), tr1)
   \<and> map model reqs1 = replicate 5 MODELS_reasoning @ [MODELS_fast]
   \<and> primaryCalls tr1 = 5 \<and> fallbackCalls tr1 = 1
   \<and> statuteCall (loggedService gen j) query ([], x) = (Inl e2, (reqs2, x2), tr2)
   \<and> map model reqs2 = replicate 5 MODELS_fast
   \<and> primaryCalls tr2 = 5 \<and> fallbackCalls tr2 = 0 \<and> isRetryable e2"
proof -
  have cnt: "primaryCalls (backoffTrace 1800 j 0 4 @ [Attempt 4]) = 5"
    "fallbackCalls (backoffTrace 1800 j 0 4 @ [Attempt 4]) = 0"
    "primaryCalls (backoffTrace 1800 j 0 4 @ [Attempt 4] @ [Fallback]) = 5"
    "fallbackCalls (backoffTrace 1800 j 0 4 @ [Attempt 4] @ [Fallback]) = 1"
    by (simp_all add: primaryCalls_backoffTrace fallbackCalls_backoffTrace)
       (simp_all add: primaryCalls_def fallbackCalls_def)
  have "\<exists>e1 reqs1 x1. caseLawCall (loggedService gen j) query ([], x) =
           (Inl e1, (reqs1, x1), backoffTrace 1800 j 0 4 @ [Attempt 4] @ [Fallback])
         \<and> map model reqs1 = replicate 5 MODELS_reasoning @ [MODELS_fast]"
    unfolding caseLawCall_def random400_loggedService
  proof -
    fix m1 sy1 u1 m2 sy2 u2
    from withRetry_logged_fallback[OF assms, of j m1 sy1 u1 m2 sy2 u2 x]
    obtain e x' where w: "withRetry (runTask (loggedService gen j) m1 sy1 u1)
             (Some (runTask (loggedService gen j) m2 sy2 u2)) 4 1800 j ([], x) =
      (Inl e, (replicate 5 (searchRequest m1 sy1 u1) @ [searchRequest m2 sy2 u2], x'),
       backoffTrace 1800 j 0 4 @ [Attempt 4] @ [Fallback])" by blast
    have "map model (replicate 5 (searchRequest m1 sy1 u1) @ [searchRequest m2 sy2 u2]) =
        replicate 5 m1 @ [m2]"
      by (simp add: model_searchRequest)
    with w show "\<exists>e1 reqs1 x1. withRetry (runTask (loggedService gen j) m1 sy1 u1)
             (Some (runTask (loggedService gen j) m2 sy2 u2)) 4 1800 j ([], x) =
           (Inl e1, (reqs1, x1), backoffTrace 1800 j 0 4 @ [Attempt 4] @ [Fallback])
         \<and> map model reqs1 = replicate 5 m1 @ [m2]"
      by blast
  qed
  then obtain e1 reqs1 x1 where
    c1: "caseLawCall (loggedService gen j) query ([], x) =
           (Inl e1, (reqs1, x1), backoffTrace 1800 j 0 4 @ [Attempt 4] @ [Fallback])"
    and m1: "map model reqs1 = replicate 5 MODELS_reasoning @ [MODELS_fast]"
    by blast
  have "\<exists>e2 reqs2 x2. statuteCall (loggedService gen j) query ([], x) =
           (Inl e2, (reqs2, x2), backoffTrace 1800 j 0 4 @ [Attempt 4])
         \<and> map model reqs2 = replicate 5 MODELS_fast \<and> isRetryable e2"
    unfolding statuteCall_def random400_loggedService
  proof -
    fix m1 sy1 u1
    from withRetry_logged_no_fallback[OF assms, of j m1 sy1 u1 x]
    obtain e x' where w: "withRetry (runTask (loggedService gen j) m1 sy1 u1) None 4 1800 j ([], x) =
      (Inl e, (replicate 5 (searchRequest m1 sy1 u1), x'), backoffTrace 1800 j 0 4 @ [Attempt 4])"
      and e: "isRetryable e" by blast
    have "map model (replicate 5 (searchRequest m1 sy1 u1)) = replicate 5 m1"
      by (simp add: model_searchRequest)
    with w e show "\<exists>e2 reqs2 x2. withRetry (runTask (loggedService gen j) m1 sy1 u1) None 4 1800 j ([], x) =
           (Inl e2, (reqs2, x2), backoffTrace 1800 j 0 4 @ [Attempt 4])
         \<and> map model reqs2 = replicate 5 m1 \<and> isRetryable e2"
      by blast
  qed
  then obtain e2 reqs2 x2 where
    c2: "statuteCall (loggedService gen j) query ([], x) =
           (Inl e2, (reqs2, x2), backoffTrace 1800 j 0 4 @ [Attempt 4])"
    and m2: "map model reqs2 = replicate 5 MODELS_fast" and e2: "isRetryable e2"
    by blast
  from c1 m1 c2 m2 e2 cnt show ?thesis by blast
qed

lemma alwaysLimited_fails:
  "\<forall>req x. \<exists>err x'. alwaysLimited req x = (Inl err, x') \<and> isRetryable err"
  by (simp add: alwaysLimited_def isRetryable_rateLimited)

text \<open>
  C3, as stated, fails for the statutes role: with every request rate-limited, the
  statutes call fails without exactly one fallback attempt (it makes none).
\<close>

theorem statuteCall_fallback_counterexample:
  "isl (fst (statuteCall (loggedService alwaysLimited (\<lambda>a. 0)) (js ''custody'') ([], ())))
   \<and> fallbackCalls (snd (snd (statuteCall (loggedService alwaysLimited (\<lambda>a. 0)) (js ''custody'') ([], ()))))
       \<noteq> 1"
proof -
  have "\<exists>e x'. statuteCall (loggedService alwaysLimited (\<lambda>a. 0)) (js ''custody'') ([], ()) =
      (Inl e, x', backoffTrace 1800 (\<lambda>a. 0) 0 4 @ [Attempt 4])"
    unfolding statuteCall_def random400_loggedService
  proof -
    fix m1 sy1 u1
    from withRetry_logged_no_fallback[OF alwaysLimited_fails, of "\<lambda>a. 0" m1 sy1 u1 "()"]
    show "\<exists>e x'. withRetry (runTask (loggedService alwaysLimited (\<lambda>a. 0)) m1 sy1 u1) None 4 1800
             (\<lambda>a. 0) ([], ()) = (Inl e, x', backoffTrace 1800 (\<lambda>a. 0) 0 4 @ [Attempt 4])"
      by blast
  qed
  then obtain e x' where "statuteCall (loggedService alwaysLimited (\<lambda>a. 0)) (js ''custody'') ([], ()) =
      (Inl e, x', backoffTrace 1800 (\<lambda>a. 0) 0 4 @ [Attempt 4])" by blast
  then show ?thesis
    by (simp add: fallbackCalls_backoffTrace) (simp add: fallbackCalls_def)
qed

theorem research_roles_retry_and_fallback_witness:
  "\<exists>e1 reqs1 x1 tr1 e2 reqs2 x2 tr2.
     caseLawCall (loggedService alwaysLimited (\<lambda>a. 0)) (js ''custody'') ([], ()) =
       (Inl e1, (reqs1, x1), tr1)
   \<and> map model reqs1 = replicate 5 MODELS_reasoning @ [MODELS_fast]
   \<and> primaryCalls tr1 = 5 \<and> fallbackCalls tr1 = 1
   \<and> statuteCall (loggedService alwaysLimited (\<lambda>a. 0)) (js ''custody'') ([], ()) =
       (Inl e2, (reqs2, x2), tr2)
   \<and> map model reqs2 = replicate 5 MODELS_fast
   \<and> primaryCalls tr2 = 5 \<and> fallbackCalls tr2 = 0 \<and> isRetryable e2"
  by (rule research_roles_retry_and_fallback[OF alwaysLimited_fails])

end
